theory Spec2Isabelle
  imports Main "HOL-Library.Word"
begin

section \<open>JavaScript strings\<close>

text \<open>
  A JavaScript string is a sequence of UTF-16 code units; \<open>length\<close>, \<open>slice\<close>,
  \<open>split\<close>, \<open>padEnd\<close> and the regular expressions used by the sources (none has the
  \<open>u\<close> flag) all count code units.
\<close>

type_synonym code_unit = "16 word"
type_synonym jsstring = "code_unit list"

definition js :: "string \<Rightarrow> jsstring" where
  "js s = map of_char s"

definition NL :: code_unit where
  "NL = 0x0A"

definition SP :: code_unit where
  "SP = 0x20"

text \<open>
  The class \<open>\s\<close> of a regular expression, which is also what \<open>String.prototype.trim\<close>
  strips: ECMAScript WhiteSpace and LineTerminator.
\<close>

definition isSpace :: "code_unit \<Rightarrow> bool" where
  "isSpace c \<longleftrightarrow>
     c \<in> set [0x09, 0x0A, 0x0B, 0x0C, 0x0D, 0x20, 0xA0, 0x1680, 0x2000, 0x2001, 0x2002,
               0x2003, 0x2004, 0x2005, 0x2006, 0x2007, 0x2008, 0x2009, 0x200A, 0x2028,
               0x2029, 0x202F, 0x205F, 0x3000, 0xFEFF]"

text \<open>\<open>s.split(sep)\<close> for a one-unit separator: always at least one piece.\<close>

fun split_js :: "'a \<Rightarrow> 'a list \<Rightarrow> 'a list list" where
  "split_js sep [] = [[]]"
| "split_js sep (x # xs) =
     (if x = sep then [] # split_js sep xs
      else (case split_js sep xs of
              [] \<Rightarrow> [[x]]
            | p # ps \<Rightarrow> (x # p) # ps))"

text \<open>\<open>parts.join(sep)\<close>.\<close>

fun join_js :: "'a list \<Rightarrow> 'a list list \<Rightarrow> 'a list" where
  "join_js sep [] = []"
| "join_js sep [p] = p"
| "join_js sep (p # q # ps) = p @ sep @ join_js sep (q # ps)"

text \<open>\<open>s.slice(a, b)\<close> for non-negative indices (both are clamped to the length).\<close>

definition slice :: "'a list \<Rightarrow> nat \<Rightarrow> nat \<Rightarrow> 'a list" where
  "slice s a b = take (b - a) (drop a s)"

text \<open>\<open>xs.map((x, i) => f(i, x))\<close>, counting from \<open>i\<close>.\<close>

fun mapi :: "(nat \<Rightarrow> 'a \<Rightarrow> 'b) \<Rightarrow> nat \<Rightarrow> 'a list \<Rightarrow> 'b list" where
  "mapi f i [] = []"
| "mapi f i (x # xs) = f i x # mapi f (Suc i) xs"

section \<open>Output formatter: line wrapping\<close>

definition maxWidth :: nat where
  "maxWidth = 80"

text \<open>The test \<open>line.match(/\s{3,}/)\<close>: three consecutive whitespace code units somewhere.\<close>

fun ws_run3 :: "jsstring \<Rightarrow> bool" where
  "ws_run3 (a # b # c # rest) =
     ((isSpace a \<and> isSpace b \<and> isSpace c) \<or> ws_run3 (b # c # rest))"
| "ws_run3 _ = False"

text \<open>
  The \<open>while (start < line.length)\<close> loop of \<open>formatTerminalOutput\<close>: pushes the slice
  \<open>[start, start + maxWidth)\<close> and advances \<open>start\<close> by \<open>maxWidth\<close>.
\<close>

function wrap_loop :: "'a list \<Rightarrow> nat \<Rightarrow> 'a list list \<Rightarrow> 'a list list" where
  "wrap_loop line start parts =
     (if start < length line
      then wrap_loop line (start + maxWidth) (parts @ [slice line start (start + maxWidth)])
      else parts)"
  by pat_completeness auto
termination
  by (relation "measure (\<lambda>(line, start, parts). length line - start)")
     (auto simp: maxWidth_def)

declare wrap_loop.simps [simp del]

text \<open>The callback given to \<open>lines.flatMap\<close>: the chunks one line is turned into.\<close>

definition wrapLine :: "jsstring \<Rightarrow> jsstring list" where
  "wrapLine line =
     (if ws_run3 line then [line]
      else if length line \<le> maxWidth then [line]
      else mapi (\<lambda>i p. if i = 0 then p else js ''  '' @ p) 0 (wrap_loop line 0 []))"

definition formatTerminalOutput :: "jsstring \<Rightarrow> jsstring" where
  "formatTerminalOutput text =
     join_js [NL] (concat (map wrapLine (split_js NL text)))"

text \<open>
  Undoing the wrapping of one line: the two-unit prefix is taken off every chunk but the
  first. This is the reading side of the losslessness property, not part of the program.
\<close>

definition unprefix :: "jsstring list \<Rightarrow> jsstring list" where
  "unprefix chunks = mapi (\<lambda>i c. if i = 0 then c else drop 2 c) 0 chunks"

section \<open>Persisted preference\<close>

text \<open>
  \<open>localStorage\<close>: a string key-value store. \<open>getItem\<close> returns \<open>null\<close> for a key that
  is not stored; \<open>setItem\<close> throws when the browser refuses the write.
\<close>

record localStorage =
  items :: "jsstring \<rightharpoonup> jsstring"
  refuses_writes :: bool

datatype storage_error = QuotaExceededError

definition getItem :: "localStorage \<Rightarrow> jsstring \<Rightarrow> jsstring option" where
  "getItem st k = items st k"

definition setItem :: "localStorage \<Rightarrow> jsstring \<Rightarrow> jsstring \<Rightarrow> storage_error + localStorage" where
  "setItem st k v =
     (if refuses_writes st then Inl QuotaExceededError
      else Inr (st\<lparr>items := (items st)(k \<mapsto> v)\<rparr>))"

text \<open>\<open>String(b)\<close> for a boolean.\<close>

definition String_bool :: "bool \<Rightarrow> jsstring" where
  "String_bool b = (if b then js ''true'' else js ''false'')"

text \<open>
  The initialiser of the \<open>suppressWarnings\<close> state:
  \<open>v === null ? true : v === 'true'\<close>.
\<close>

definition suppressWarnings_init :: "localStorage \<Rightarrow> bool" where
  "suppressWarnings_init st =
     (case getItem st (js ''suppressWarnings'') of
        None \<Rightarrow> True
      | Some v \<Rightarrow> v = js ''true'')"

text \<open>
  The effect that persists the setting; a refused write is caught and reported with
  \<open>console.warn\<close> (the second component counts the warnings).
\<close>

definition persist_suppressWarnings :: "bool \<Rightarrow> localStorage \<Rightarrow> localStorage \<times> nat" where
  "persist_suppressWarnings b st =
     (case setItem st (js ''suppressWarnings'') (String_bool b) of
        Inl err \<Rightarrow> (st, 1)
      | Inr st' \<Rightarrow> (st', 0))"

section \<open>Sandboxed backend: the shared interpreter\<close>

text \<open>
  The module variable \<open>pyodideReady\<close> holds the initialisation promise or \<open>null\<close>. A
  promise is identified by the number of the \<open>window.loadPyodide\<close> call it wraps;
  \<open>loads_started\<close> counts these calls, \<open>settled\<close> lists the promises that have completed
  (resolved or rejected).
\<close>

record py_module =
  pyodideReady :: "nat option"
  loads_started :: nat
  settled :: "nat list"

definition py_module_init :: py_module where
  "py_module_init = \<lparr>pyodideReady = None, loads_started = 0, settled = []\<rparr>"

text \<open>
  \<open>loadPyodideOnce\<close>: the body of the immediately invoked async function runs up to
  its first \<open>await\<close>, that is through the call of \<open>window.loadPyodide\<close>, before the
  assignment; nothing else runs in between. The result is the promise awaited by the
  caller.
\<close>

definition loadPyodideOnce :: "py_module \<Rightarrow> nat \<times> py_module" where
  "loadPyodideOnce m =
     (case pyodideReady m of
        None \<Rightarrow>
          (loads_started m,
           m\<lparr>pyodideReady := Some (loads_started m), loads_started := Suc (loads_started m)\<rparr>)
      | Some p \<Rightarrow> (p, m))"

definition ensurePyodide :: "py_module \<Rightarrow> nat \<times> py_module" where
  "ensurePyodide m = loadPyodideOnce m"

text \<open>
  What can happen to the module, in any order: a caller enters \<open>ensurePyodide\<close>, a caller
  enters \<open>runPython\<close> (whose first statement is \<open>await loadPyodideOnce()\<close>), or the
  pending initialisation completes.
\<close>

datatype py_event = EnsurePyodide | RunPython | InitSettles

fun py_step :: "py_event \<Rightarrow> py_module \<Rightarrow> nat list \<times> py_module" where
  "py_step EnsurePyodide m = (let (p, m') = ensurePyodide m in ([p], m'))"
| "py_step RunPython m = (let (p, m') = loadPyodideOnce m in ([p], m'))"
| "py_step InitSettles m =
     ([], case pyodideReady m of
            None \<Rightarrow> m
          | Some p \<Rightarrow> m\<lparr>settled := settled m @ [p]\<rparr>)"

text \<open>Runs the events in order and collects the promises handed to the callers.\<close>

fun py_run :: "py_event list \<Rightarrow> py_module \<Rightarrow> nat list \<times> py_module" where
  "py_run [] m = ([], m)"
| "py_run (e # es) m =
     (let (ps, m') = py_step e m; (qs, m'') = py_run es m' in (ps @ qs, m''))"

text \<open>
  The invariant of the module: before the first call nothing has been started; afterwards
  the variable holds the promise of the one call that was made.
\<close>

definition py_inv :: "py_module \<Rightarrow> bool" where
  "py_inv m \<longleftrightarrow>
     (case pyodideReady m of
        None \<Rightarrow> loads_started m = 0
      | Some q \<Rightarrow> q = 0 \<and> loads_started m = 1)"

section \<open>More string operations\<close>

text \<open>\<open>s.startsWith(p)\<close>, \<open>s.endsWith(p)\<close> and \<open>s.includes(p)\<close>.\<close>

definition startsWith :: "'a list \<Rightarrow> 'a list \<Rightarrow> bool" where
  "startsWith s p \<longleftrightarrow> take (length p) s = p"

definition endsWith :: "'a list \<Rightarrow> 'a list \<Rightarrow> bool" where
  "endsWith s p \<longleftrightarrow> length p \<le> length s \<and> drop (length s - length p) s = p"

fun includes_js :: "'a list \<Rightarrow> 'a list \<Rightarrow> bool" where
  "includes_js [] p = (p = [])"
| "includes_js (x # xs) p = (startsWith (x # xs) p \<or> includes_js xs p)"

text \<open>\<open>s.trim()\<close>.\<close>

definition trim :: "jsstring \<Rightarrow> jsstring" where
  "trim s = rev (dropWhile isSpace (rev (dropWhile isSpace s)))"

text \<open>\<open>s.padEnd(n, ' ')\<close>.\<close>

definition padEnd :: "jsstring \<Rightarrow> nat \<Rightarrow> jsstring" where
  "padEnd s n = s @ replicate (n - length s) SP"

text \<open>
  Matching an ASCII pattern with the flag \<open>i\<close> and without the flag \<open>u\<close>: both sides
  are canonicalised with \<open>toUpperCase\<close>, and a code unit of 128 or more is never mapped
  to one below 128, so a unit matches an ASCII pattern unit exactly when their ASCII
  upper-case forms agree.
\<close>

definition ascii_upper :: "code_unit \<Rightarrow> code_unit" where
  "ascii_upper c = (if 0x61 \<le> c \<and> c \<le> 0x7A then c - 0x20 else c)"

definition includes_ci :: "jsstring \<Rightarrow> jsstring \<Rightarrow> bool" where
  "includes_ci s p = includes_js (map ascii_upper s) (map ascii_upper p)"

section \<open>Output formatter: warning filter and line classification\<close>

text \<open>The list \<open>warningPatterns\<close> of \<open>shouldFilterOutput\<close>.\<close>

definition warningPatterns :: "jsstring list" where
  "warningPatterns =
     [js ''Pyarrow will become a required dependency'',
      js ''The behavior will change in pandas 3.0'',
      js ''This inplace method will never work'',
      js ''DeprecationWarning'',
      js ''FutureWarning'',
      js ''Warning:'',
      js ''pandas'',
      js ''inplace method'',
      js ''intermediate object'']"

text \<open>\<open>shouldFilterOutput\<close>; the state \<open>suppressWarnings\<close> it reads is the argument \<open>suppress\<close>.\<close>

definition shouldFilterOutput :: "bool \<Rightarrow> jsstring \<Rightarrow> bool" where
  "shouldFilterOutput suppress text =
     (if \<not> suppress then False
      else list_ex (\<lambda>pattern. includes_js text pattern) warningPatterns)"

text \<open>
  The stream callback given to \<open>runPython\<close> (the same body for stdout and stderr). It
  works on the transcript and on the local \<open>raw\<close>; \<open>suppress\<close> and \<open>captured\<close> are
  the values of \<open>suppressWarnings\<close> and of \<open>output\<close> that the closure captured when the
  action was started.
\<close>

definition stream_sink ::
  "bool \<Rightarrow> jsstring \<Rightarrow> jsstring \<Rightarrow> jsstring \<times> jsstring \<Rightarrow> jsstring \<times> jsstring" where
  "stream_sink suppress captured t acc =
     (case acc of (transcript, raw) \<Rightarrow>
        if trim t = [] \<or> shouldFilterOutput suppress t then (transcript, raw)
        else
          (let transcript1 =
                 (if captured \<noteq> [] \<and> \<not> endsWith captured [NL] then transcript @ [NL]
                  else transcript)
           in (transcript1 @ t, raw @ t)))"

text \<open>\<open>TerminalNote\<close>. The bullet is U+2022.\<close>

definition TerminalNote :: "jsstring \<Rightarrow> jsstring \<Rightarrow> jsstring" where
  "TerminalNote label text =
     (let labelWidth = 8;
          paddedLabel = padEnd label labelWidth;
          displayText = (if length text > 80 then slice text 0 75 @ js ''...'' else text);
          lines = split_js NL (formatTerminalOutput displayText)
      in join_js [NL]
           (mapi (\<lambda>i line.
                    if i = 0 then [0x2022] @ js '' ['' @ paddedLabel @ js ''] '' @ line
                    else replicate (labelWidth + 4) SP @ line) 0 lines))"

text \<open>
  The callback of \<open>lines.map\<close> in \<open>TerminalOutput\<close>: how one line of the transcript is
  rendered. The arrow of an echoed command is U+25B6.
\<close>

definition renderLine :: "jsstring \<Rightarrow> jsstring" where
  "renderLine line =
     (if startsWith line (js ''$ '') then [0x25B6] @ js '' '' @ drop 2 line
      else if includes_ci line (js ''Warning:'') \<or> includes_ci line (js ''DeprecationWarning'')
        then TerminalNote (js ''Warning'') line
      else if startsWith line (js ''==='') \<and> endsWith line (js ''==='') then line
      else if startsWith line (js ''==='') then line
      else if trim line = [] then []
      else js ''  '' @ line)"

text \<open>
  The classified lines of \<open>TerminalOutput\<close>, which it puts between the heading and the
  footer.
\<close>

definition renderedLines :: "jsstring \<Rightarrow> jsstring" where
  "renderedLines output = join_js [NL] (map renderLine (split_js NL output))"

section \<open>Output formatter: tables\<close>

text \<open>
  A cell is given by its text \<open>String(c)\<close>; \<open>cellText r i\<close> is \<open>String(r[i] ?? '')\<close>.
  The box-drawing characters are single code units.
\<close>

definition cellText :: "jsstring list \<Rightarrow> nat \<Rightarrow> jsstring" where
  "cellText r i = (if i < length r then r ! i else [])"

definition padding :: nat where
  "padding = 1"

definition colWidths :: "jsstring list \<Rightarrow> jsstring list list \<Rightarrow> nat list" where
  "colWidths headers rows =
     mapi (\<lambda>i h. fold max (map (\<lambda>r. length (cellText r i)) rows) (length h) + padding * 2)
       0 headers"

definition table_line :: "nat list \<Rightarrow> code_unit \<Rightarrow> code_unit \<Rightarrow> code_unit \<Rightarrow> jsstring" where
  "table_line ws l m r = [l] @ join_js [m] (map (\<lambda>w. replicate w 0x2500) ws) @ [r]"

text \<open>\<open>colWidths[i]\<close> as \<open>padEnd\<close> takes it: a missing width pads nothing.\<close>

definition width_at :: "nat list \<Rightarrow> nat \<Rightarrow> nat" where
  "width_at ws i = (if i < length ws then ws ! i else 0)"

definition table_head :: "nat list \<Rightarrow> jsstring list \<Rightarrow> jsstring" where
  "table_head ws headers =
     [0x2502] @ join_js [0x2502] (mapi (\<lambda>i h. padEnd (js '' '' @ h @ js '' '') (width_at ws i)) 0 headers)
       @ [0x2502]"

definition table_row :: "nat list \<Rightarrow> jsstring list \<Rightarrow> jsstring" where
  "table_row ws row =
     [0x2502] @ join_js [0x2502] (mapi (\<lambda>i c. padEnd (js '' '' @ c) (width_at ws i)) 0 row)
       @ [0x2502]"

definition buildTableString :: "jsstring list \<Rightarrow> jsstring list list \<Rightarrow> jsstring" where
  "buildTableString headers rows =
     (let ws = colWidths headers rows;
          top = table_line ws 0x250C 0x252C 0x2510;
          mid = table_line ws 0x251C 0x253C 0x2524;
          bot = table_line ws 0x2514 0x2534 0x2518;
          head = table_head ws headers;
          body = join_js [NL]
                   (mapi (\<lambda>ri row.
                            let txt = table_row ws row
                            in if Suc ri < length rows then txt @ [NL] @ mid else txt)
                      0 rows)
      in join_js [NL] [top, head, mid, body, bot])"

section \<open>Dispatcher of the web application\<close>

datatype action_kind = Command | Browser | Tests | File

text \<open>\<open>TocAction\<close>; the optional field \<open>terminal\<close> is called \<open>terminal_name\<close> here.\<close>

record TocAction =
  label :: jsstring
  action :: "action_kind option"
  target :: "jsstring option"
  terminal_name :: "jsstring option"

datatype tab = Console_tab | Result_tab

datatype language = Python_lang | Markdown_lang | Plaintext_lang

text \<open>
  The state that \<open>runAction\<close> reads and writes: the React state variables under their
  own names, and a record of what was handed to the outside: \<open>opened\<close> the URLs given to
  \<open>window.open\<close>, \<open>fetched\<close> the URLs requested from the content store, \<open>py_runs\<close> the
  source texts given to \<open>runPython\<close>. Scrolling, editor layout and console messages are
  left out.
\<close>

record app =
  "output" :: jsstring
  currentFilePath :: jsstring
  running :: bool
  suppressWarnings :: bool
  resultText :: jsstring
  bottomTab :: tab
  editorLanguage :: language
  editorValue :: jsstring
  editorPath :: jsstring
  opened :: "jsstring list"
  fetched :: "jsstring list"
  py_runs :: "jsstring list"

datatype channel = Stdout | Stderr

text \<open>
  The collaborators: \<open>fetch_text url\<close> is \<open>fetch(url).then(r => r.text())\<close>, \<open>None\<close>
  when the promise rejects; \<open>runPython code\<close> gives the chunks the interpreter hands to
  the two callbacks, in order, and whether the run then returned (\<open>True\<close>) or threw;
  \<open>buildPreprocessingSummary\<close> is the summary builder of the preprocessing lesson.
\<close>

record env =
  fetch_text :: "jsstring \<Rightarrow> jsstring option"
  runPython :: "jsstring \<Rightarrow> (channel \<times> jsstring) list \<times> bool"
  buildPreprocessingSummary :: "jsstring \<Rightarrow> jsstring"

datatype outcome = Sent | AlreadyRunning | Done | TypeError

definition appendOutput :: "jsstring \<Rightarrow> app \<Rightarrow> app" where
  "appendOutput text s = s\<lparr>output := output s @ text\<rparr>"

text \<open>The three fixed lines of the transcript (Arabic text, given by its code units).\<close>

definition loading_line :: jsstring where
  "loading_line =
    [0x002E, 0x002E, 0x002E, 0x0020, 0x062A, 0x062D, 0x0645, 0x064A, 0x0644, 0x0020,
     0x0628, 0x0627, 0x064A, 0x062B, 0x0648, 0x0646, 0x0020, 0x0028, 0x0642, 0x062F,
     0x0020, 0x064A, 0x0633, 0x062A, 0x063A, 0x0631, 0x0642, 0x0020, 0x0623, 0x0648,
     0x0644, 0x0020, 0x062A, 0x0634, 0x063A, 0x064A, 0x0644, 0x0020, 0x062F, 0x0642,
     0x064A, 0x0642, 0x0629, 0x0029, 0x000A]"

definition run_failed_line :: jsstring where
  "run_failed_line =
    [0x062A, 0x0639, 0x0630, 0x0631, 0x0020, 0x062A, 0x0634, 0x063A, 0x064A, 0x0644,
     0x0020, 0x0628, 0x0627, 0x064A, 0x062B, 0x0648, 0x0646, 0x0020, 0x0641, 0x064A,
     0x0020, 0x0627, 0x0644, 0x0645, 0x062A, 0x0635, 0x0641, 0x062D, 0x0020, 0x0028,
     0x062A, 0x0623, 0x0643, 0x062F, 0x0020, 0x0645, 0x0646, 0x0020, 0x0627, 0x0644,
     0x0627, 0x062A, 0x0635, 0x0627, 0x0644, 0x0020, 0x0628, 0x0627, 0x0644, 0x0625,
     0x0646, 0x062A, 0x0631, 0x0646, 0x062A, 0x0020, 0x0644, 0x062A, 0x062D, 0x0645,
     0x064A, 0x0644, 0x0020, 0x0050, 0x0079, 0x006F, 0x0064, 0x0069, 0x0064, 0x0065,
     0x0029, 0x000A]"

definition cannot_execute_line :: jsstring where
  "cannot_execute_line =
    [0x0644, 0x0627, 0x0020, 0x064A, 0x0645, 0x0643, 0x0646, 0x0020, 0x062A, 0x0646,
     0x0641, 0x064A, 0x0630, 0x0020, 0x0627, 0x0644, 0x0623, 0x0648, 0x0627, 0x0645,
     0x0631, 0x0020, 0x0641, 0x064A, 0x0020, 0x0627, 0x0644, 0x0645, 0x062A, 0x0635,
     0x0641, 0x062D, 0x000A]"

text \<open>The directives put before the fetched source when warnings are suppressed.\<close>

definition warnings_preamble :: jsstring where
  "warnings_preamble =
     [NL] @ js ''import warnings'' @ [NL] @
     js ''warnings.filterwarnings('ignore', category=DeprecationWarning)'' @ [NL] @
     js ''warnings.filterwarnings('ignore', category=FutureWarning)'' @ [NL] @
     js ''warnings.filterwarnings('ignore', message='.*Pyarrow.*')'' @ [NL] @
     js ''warnings.filterwarnings('ignore', message='.*pandas.*')'' @ [NL]"

text \<open>
  \<open>target.replace(/^python\s+/, '')\<close>: the word and the whole run of whitespace after
  it are removed; a text that does not begin so is left as it is.
\<close>

definition replace_python_prefix :: "jsstring \<Rightarrow> jsstring" where
  "replace_python_prefix t =
     (if startsWith t (js ''python'') \<and> drop 6 t \<noteq> [] \<and> isSpace (hd (drop 6 t))
      then dropWhile isSpace (drop 6 t)
      else t)"

text \<open>The branch of \<open>runAction\<close> for a \<open>command\<close> action with a non-empty target.\<close>

definition runAction_command :: "env \<Rightarrow> jsstring \<Rightarrow> app \<Rightarrow> app" where
  "runAction_command e tgt s =
     (let s1 = appendOutput (js ''$ '' @ tgt @ [NL]) s
      in if startsWith tgt (js ''python '') then
           (let path = replace_python_prefix tgt;
                s2 = appendOutput loading_line (s1\<lparr>running := True\<rparr>);
                s3 = s2\<lparr>fetched := fetched s2 @ [js ''/'' @ path]\<rparr>
            in case fetch_text e (js ''/'' @ path) of
                 None \<Rightarrow> (appendOutput run_failed_line s3)\<lparr>running := False\<rparr>
               | Some fetched_code \<Rightarrow>
                   (let code = (if suppressWarnings s then warnings_preamble @ fetched_code
                                else fetched_code);
                        s4 = s3\<lparr>py_runs := py_runs s3 @ [code]\<rparr>;
                        (chunks, returned) = runPython e code;
                        (transcript, raw) =
                          fold (\<lambda>(ch, t). stream_sink (suppressWarnings s) (output s) t)
                            chunks (output s4, []);
                        s5 = s4\<lparr>output := transcript\<rparr>
                    in if returned then
                         (if includes_js path (js ''session2/data_cleaning_example.py'') then
                            (let summary = buildPreprocessingSummary e raw
                             in s5\<lparr>resultText := summary, bottomTab := Result_tab,
                                   editorLanguage := Plaintext_lang, editorValue := summary,
                                   editorPath := js ''result.txt'', running := False\<rparr>)
                          else s5\<lparr>running := False\<rparr>)
                       else (appendOutput run_failed_line s5)\<lparr>running := False\<rparr>))
         else appendOutput cannot_execute_line s1)"

text \<open>
  \<open>runAction\<close> of the web application. A target is truthy when it is present and not
  empty. In the \<open>tests\<close> branch \<open>command.trim()\<close> throws when the target has no
  \<open>|\<close>, after the file path has been set.
\<close>

definition runAction :: "env \<Rightarrow> TocAction \<Rightarrow> app \<Rightarrow> app \<times> outcome" where
  "runAction e a s =
     (let kind = (case action a of None \<Rightarrow> Command | Some k \<Rightarrow> k);
          tgt = (case target a of None \<Rightarrow> [] | Some t \<Rightarrow> t)
      in if kind = Browser \<and> tgt \<noteq> [] then (s\<lparr>opened := opened s @ [tgt]\<rparr>, Done)
         else if kind = File \<and> tgt \<noteq> [] then (s\<lparr>currentFilePath := tgt\<rparr>, Done)
         else if kind = Tests \<and> tgt \<noteq> [] then
           (case split_js 0x7C tgt of
              [] \<Rightarrow> (s, TypeError)
            | [file] \<Rightarrow> (s\<lparr>currentFilePath := trim file\<rparr>, TypeError)
            | file # command # rest \<Rightarrow>
                (appendOutput (js ''$ '' @ trim command @ [NL]) (s\<lparr>currentFilePath := trim file\<rparr>),
                 Done))
         else if kind = Command \<and> tgt \<noteq> [] then (runAction_command e tgt s, Done)
         else (s, Done))"

section \<open>Terminal pool of the editor extension\<close>

text \<open>
  A terminal of the editor is an object with an identity and a name; \<open>tid\<close> stands for
  the identity, so \<open>a === b\<close> is \<open>tid a = tid b\<close>.
\<close>

record vsc_terminal =
  tid :: nat
  tname :: jsstring

record entry =
  terminal :: vsc_terminal
  idle :: bool

datatype effect =
    Show vsc_terminal
  | SendText vsc_terminal jsstring
  | OpenExternal jsstring
  | OpenFile jsstring

datatype console_msg =
    Log_running jsstring jsstring
  | Log_already_running
  | Log_exited int

text \<open>
  The module variable \<open>terminals\<close>, and what the extension sees and does outside it:
  \<open>window_terminals\<close> is \<open>vscode.window.terminals\<close>; \<open>created\<close> counts the terminals made
  so far and gives the next identity; the listeners are the ones \<open>createTerminal\<close> and
  its shell-integration listener have registered, each with the \<open>newTerminal\<close> it
  captured; \<open>effects\<close> are the calls made on terminals and side channels; \<open>console\<close> are
  the lines written with \<open>console.log\<close>.
\<close>

record ext =
  terminals :: "entry list"
  window_terminals :: "vsc_terminal list"
  created :: nat
  integration_listeners :: "vsc_terminal list"
  execution_listeners :: "vsc_terminal list"
  close_listeners :: nat
  effects :: "effect list"
  console :: "console_msg list"

definition ext_init :: ext where
  "ext_init =
     \<lparr>terminals = [], window_terminals = [], created = 0, integration_listeners = [],
      execution_listeners = [], close_listeners = 0, effects = [], console = []\<rparr>"

text \<open>\<open>xs.findIndex(P)\<close>, with \<open>None\<close> for \<open>-1\<close>, and \<open>xs.splice(i, 1)\<close>.\<close>

fun findIndex :: "('a \<Rightarrow> bool) \<Rightarrow> 'a list \<Rightarrow> nat option" where
  "findIndex P [] = None"
| "findIndex P (x # xs) = (if P x then Some 0 else map_option Suc (findIndex P xs))"

definition splice1 :: "nat \<Rightarrow> 'a list \<Rightarrow> 'a list" where
  "splice1 i xs = take i xs @ drop (Suc i) xs"

text \<open>
  \<open>createTerminal\<close>: \<open>vscode.window.createTerminal\<close> makes a new terminal, which the
  editor lists in \<open>window.terminals\<close> at once; then one shell-integration listener and one
  close listener are registered.
\<close>

definition createTerminal :: "jsstring \<Rightarrow> ext \<Rightarrow> vsc_terminal \<times> ext" where
  "createTerminal terminalName s =
     (let newTerminal = \<lparr>tid = created s, tname = terminalName\<rparr>
      in (newTerminal,
          s\<lparr>window_terminals := window_terminals s @ [newTerminal],
            created := Suc (created s),
            integration_listeners := integration_listeners s @ [newTerminal],
            close_listeners := Suc (close_listeners s)\<rparr>))"

text \<open>
  The listener of \<open>onDidChangeTerminalShellIntegration\<close> registered for \<open>newTerminal\<close>,
  run for an event about \<open>t\<close>.
\<close>

definition on_shell_integration :: "vsc_terminal \<Rightarrow> vsc_terminal \<Rightarrow> ext \<Rightarrow> ext" where
  "on_shell_integration newTerminal t s =
     (if tid t = tid newTerminal
      then s\<lparr>execution_listeners := execution_listeners s @ [newTerminal]\<rparr>
      else s)"

text \<open>
  The listener of \<open>onDidEndTerminalShellExecution\<close> registered for \<open>newTerminal\<close>, run
  for the end of a command in \<open>t\<close> with the given exit code.
\<close>

definition on_end_execution :: "vsc_terminal \<Rightarrow> vsc_terminal \<Rightarrow> int \<Rightarrow> ext \<Rightarrow> ext" where
  "on_end_execution newTerminal t exitCode s =
     (if tid t = tid newTerminal then
        (let s1 = (case findIndex (\<lambda>e. tid (terminal e) = tid newTerminal) (terminals s) of
                     None \<Rightarrow> s
                   | Some terminalIndex \<Rightarrow>
                       s\<lparr>terminals := (terminals s)
                           [terminalIndex := (terminals s ! terminalIndex)\<lparr>idle := True\<rparr>]\<rparr>)
         in s1\<lparr>console := console s1 @ [Log_exited exitCode]\<rparr>)
      else s)"

text \<open>The listener of \<open>onDidCloseTerminal\<close>, run for the closed terminal.\<close>

definition on_close :: "vsc_terminal \<Rightarrow> ext \<Rightarrow> ext" where
  "on_close closedTerminal s =
     (case findIndex (\<lambda>e. tid (terminal e) = tid closedTerminal) (terminals s) of
        None \<Rightarrow> s
      | Some index \<Rightarrow> s\<lparr>terminals := splice1 index (terminals s)\<rparr>)"

text \<open>
  The signals of the editor: each runs every registered listener of its kind. A closed
  terminal is no longer listed in \<open>window.terminals\<close> when its listeners run.
\<close>

definition signal_shell_integration :: "vsc_terminal \<Rightarrow> ext \<Rightarrow> ext" where
  "signal_shell_integration t s =
     fold (\<lambda>newTerminal. on_shell_integration newTerminal t) (integration_listeners s) s"

definition signal_command_ended :: "vsc_terminal \<Rightarrow> int \<Rightarrow> ext \<Rightarrow> ext" where
  "signal_command_ended t exitCode s =
     fold (\<lambda>newTerminal. on_end_execution newTerminal t exitCode) (execution_listeners s) s"

definition signal_session_closed :: "vsc_terminal \<Rightarrow> ext \<Rightarrow> ext" where
  "signal_session_closed t s =
     ((on_close t) ^^ close_listeners s)
       (s\<lparr>window_terminals := filter (\<lambda>w. tid w \<noteq> tid t) (window_terminals s)\<rparr>)"

text \<open>
  The first part of \<open>runCommandInTerminal\<close> (up to the test of \<open>idle\<close>): looks the name
  up, removes an entry whose terminal the editor no longer lists, creates and registers a
  terminal when the name was not found, and gives the index to use. The index found at
  the start is kept when the entry is removed.
\<close>

definition ensure_terminal :: "jsstring \<Rightarrow> ext \<Rightarrow> nat \<times> ext" where
  "ensure_terminal terminalName s =
     (let found = findIndex (\<lambda>t. tname (terminal t) = terminalName) (terminals s);
          s1 = (case found of
                  Some terminalIndex \<Rightarrow>
                    if \<not> list_ex (\<lambda>t. tname t = terminalName) (window_terminals s)
                    then s\<lparr>terminals := splice1 terminalIndex (terminals s)\<rparr>
                    else s
                | None \<Rightarrow> s)
      in case found of
           None \<Rightarrow>
             (let (newTerminal, s2) = createTerminal terminalName s1;
                  s3 = s2\<lparr>terminals := terminals s2 @ [\<lparr>terminal = newTerminal, idle = True\<rparr>]\<rparr>
              in (length (terminals s3) - 1, s3))
         | Some terminalIndex \<Rightarrow> (terminalIndex, s1))"

text \<open>
  The second part: the command is sent only to an idle terminal. Reading \<open>idle\<close> of an
  index outside the list throws.
\<close>

definition send_if_idle :: "jsstring \<Rightarrow> nat \<Rightarrow> ext \<Rightarrow> ext \<times> outcome" where
  "send_if_idle command terminalIndex s =
     (if terminalIndex < length (terminals s) then
        (let en = terminals s ! terminalIndex
         in if idle en then
              (s\<lparr>terminals := (terminals s)[terminalIndex := en\<lparr>idle := False\<rparr>],
                 effects := effects s @ [Show (terminal en), SendText (terminal en) command]\<rparr>,
               Sent)
            else (s\<lparr>console := console s @ [Log_already_running]\<rparr>, AlreadyRunning))
      else (s, TypeError))"

text \<open>\<open>runCommandInTerminal\<close> of \<open>extension.ts\<close>.\<close>

definition runCommandInTerminal :: "jsstring \<Rightarrow> jsstring \<Rightarrow> ext \<Rightarrow> ext \<times> outcome" where
  "runCommandInTerminal command terminalName s =
     (let (terminalIndex, s1) = ensure_terminal terminalName s
      in send_if_idle command terminalIndex s1)"

definition TERMINAL_NAME :: jsstring where
  "TERMINAL_NAME = js ''ml.school''"

text \<open>
  \<open>runCommandAction\<close> of the later version of the extension: it logs the call, replaces
  a missing name (empty, or the text \<open>undefined\<close>) by the default, and then has the body
  of \<open>runCommandInTerminal\<close>.
\<close>

definition runCommandAction :: "jsstring \<Rightarrow> jsstring \<Rightarrow> ext \<Rightarrow> ext \<times> outcome" where
  "runCommandAction command terminalName s =
     (let s0 = s\<lparr>console := console s @ [Log_running command terminalName]\<rparr>;
          name = (if terminalName = [] \<or> terminalName = js ''undefined'' then TERMINAL_NAME
                  else terminalName);
          (terminalIndex, s1) = ensure_terminal name s0
      in send_if_idle command terminalIndex s1)"

text \<open>\<open>runBrowserAction\<close>, \<open>openFile\<close> (the request to the editor), \<open>runTestAction\<close>.\<close>

definition runBrowserAction :: "jsstring \<Rightarrow> ext \<Rightarrow> ext" where
  "runBrowserAction url s = s\<lparr>effects := effects s @ [OpenExternal url]\<rparr>"

definition openFile :: "jsstring \<Rightarrow> ext \<Rightarrow> ext" where
  "openFile file s = (if file \<noteq> [] then s\<lparr>effects := effects s @ [OpenFile file]\<rparr> else s)"

definition runTestAction :: "jsstring \<Rightarrow> jsstring \<Rightarrow> ext \<Rightarrow> ext \<times> outcome" where
  "runTestAction tgt command s = runCommandAction command [] (openFile tgt s)"

text \<open>
  \<open>runAction\<close> of the extension. For \<open>tests\<close>, \<open>command.trim()\<close> throws when the
  target has no \<open>|\<close>, before anything is done.
\<close>

definition runAction_ext :: "jsstring \<Rightarrow> jsstring \<Rightarrow> jsstring \<Rightarrow> ext \<Rightarrow> ext \<times> outcome" where
  "runAction_ext act tgt term s =
     (if act = js ''command'' then runCommandAction tgt term s
      else if act = js ''browser'' then (runBrowserAction tgt s, Done)
      else if act = js ''tests'' then
        (case split_js 0x7C tgt of
           file # command # rest \<Rightarrow> runTestAction (trim file) (trim command) s
         | _ \<Rightarrow> (s, TypeError))
      else if act = js ''file'' then (openFile tgt s, Done)
      else (s, Done))"

text \<open>
  What holds of every pool reached from the empty one by sends and signals: no two
  entries have the same name or the same terminal, every entry's terminal was made by
  \<open>createTerminal\<close> and is still listed by the editor, and there is one close listener
  for every terminal made.
\<close>

definition pool_inv :: "ext \<Rightarrow> bool" where
  "pool_inv s \<longleftrightarrow>
     distinct (map (\<lambda>e. tname (terminal e)) (terminals s)) \<and>
     distinct (map (\<lambda>e. tid (terminal e)) (terminals s)) \<and>
     (\<forall>e \<in> set (terminals s). tid (terminal e) < created s) \<and>
     (\<forall>e \<in> set (terminals s). terminal e \<in> set (window_terminals s)) \<and>
     close_listeners s = created s"

text \<open>
  The pools that can be reached: from the empty pool, by the entry points of the two
  versions of the extension and by the signals of the editor.
\<close>

inductive reachable :: "ext \<Rightarrow> bool" where
  start: "reachable ext_init"
| send: "reachable s \<Longrightarrow> reachable (fst (runCommandInTerminal command terminalName s))"
| act: "reachable s \<Longrightarrow> reachable (fst (runAction_ext a tgt term s))"
| integration: "reachable s \<Longrightarrow> reachable (signal_shell_integration t s)"
| ended: "reachable s \<Longrightarrow> reachable (signal_command_ended t exitCode s)"
| closed: "reachable s \<Longrightarrow> reachable (signal_session_closed t s)"

text \<open>
  The pools that can be reached from a given pool by the same entry points and signals.
\<close>

inductive reaches :: "ext \<Rightarrow> ext \<Rightarrow> bool" where
  here: "reaches s s"
| send: "reaches s s1 \<Longrightarrow> reaches s (fst (runCommandInTerminal command terminalName s1))"
| act: "reaches s s1 \<Longrightarrow> reaches s (fst (runAction_ext a tgt term s1))"
| integration: "reaches s s1 \<Longrightarrow> reaches s (signal_shell_integration t s1)"
| ended: "reaches s s1 \<Longrightarrow> reaches s (signal_command_ended t exitCode s1)"
| closed: "reaches s s1 \<Longrightarrow> reaches s (signal_session_closed t s1)"

text \<open>
  A terminal that was made earlier and that no entry of the pool holds: the state of a
  session after its close signal.
\<close>

definition gone :: "vsc_terminal \<Rightarrow> ext \<Rightarrow> bool" where
  "gone t s \<longleftrightarrow>
     tid t < created s \<and> (\<forall>x \<in> set (terminals s). tid (terminal x) \<noteq> tid t)"

text \<open>
  A tests target is well formed when it has exactly one \<open>|\<close> and both parts are not
  empty after trimming.
\<close>

definition wf_tests_target :: "jsstring \<Rightarrow> bool" where
  "wf_tests_target tgt \<longleftrightarrow>
     (case split_js 0x7C tgt of
        [file, command] \<Rightarrow> trim file \<noteq> [] \<and> trim command \<noteq> []
      | _ \<Rightarrow> False)"

section \<open>Sample collaborators and states for the examples\<close>

text \<open>
  A content store that is unreachable, an interpreter that prints nothing and returns,
  and an application state with an empty transcript.
\<close>

definition env_offline :: env where
  "env_offline =
     \<lparr>fetch_text = Map.empty, runPython = (\<lambda>code. ([], True)),
      buildPreprocessingSummary = (\<lambda>raw. raw)\<rparr>"

text \<open>A content store that holds \<open>print("hi")\<close> under every path, and an interpreter that
  prints \<open>hi\<close>.\<close>

definition env_demo :: env where
  "env_demo =
     \<lparr>fetch_text = (\<lambda>url. Some (js ''print(\"hi\")'')),
      runPython = (\<lambda>code. ([(Stdout, js ''hi'')], True)),
      buildPreprocessingSummary = (\<lambda>raw. raw)\<rparr>"

definition app_blank :: app where
  "app_blank =
     \<lparr>output = [], currentFilePath = [], running = False, suppressWarnings = True,
      resultText = [], bottomTab = Console_tab, editorLanguage = Python_lang,
      editorValue = [], editorPath = js ''sample.py'', opened = [], fetched = [],
      py_runs = []\<rparr>"

definition command_action :: "jsstring \<Rightarrow> TocAction" where
  "command_action tgt =
     \<lparr>label = js ''run'', action = Some Command, target = Some tgt, terminal_name = None\<rparr>"

definition tests_action :: "jsstring \<Rightarrow> TocAction" where
  "tests_action tgt =
     \<lparr>label = js ''test'', action = Some Tests, target = Some tgt, terminal_name = None\<rparr>"

text \<open>
  A pool with the one terminal \<open>t\<close>, idle or busy, as it is after a first command has
  been sent from the empty pool (and, for idle, has ended).
\<close>

definition ext_one :: "bool \<Rightarrow> ext" where
  "ext_one is_idle =
     \<lparr>terminals = [\<lparr>terminal = \<lparr>tid = 0, tname = js ''t''\<rparr>, idle = is_idle\<rparr>],
      window_terminals = [\<lparr>tid = 0, tname = js ''t''\<rparr>],
      created = 1,
      integration_listeners = [\<lparr>tid = 0, tname = js ''t''\<rparr>],
      execution_listeners = [\<lparr>tid = 0, tname = js ''t''\<rparr>],
      close_listeners = 1,
      effects = [],
      console = []\<rparr>"

section \<open>Verified properties\<close>

subsection \<open>Splitting and joining\<close>

lemma split_js_not_Nil: "split_js sep s \<noteq> []"
  by (induction s) (auto split: list.splits)

lemma join_js_Cons: "ps \<noteq> [] \<Longrightarrow> join_js sep (p # ps) = p @ sep @ join_js sep ps"
  by (cases ps) simp_all

lemma join_split_js: "join_js [sep] (split_js sep s) = s"
proof (induction s)
  case Nil
  show ?case by simp
next
  case (Cons x xs)
  show ?case
  proof (cases "x = sep")
    case True
    with Cons show ?thesis by (simp add: join_js_Cons split_js_not_Nil)
  next
    case False
    obtain p ps where sp: "split_js sep xs = p # ps"
      using split_js_not_Nil [of sep xs] by (cases "split_js sep xs") auto
    have "join_js [sep] ((x # p) # ps) = x # join_js [sep] (p # ps)"
      by (cases ps) simp_all
    with Cons False sp show ?thesis by simp
  qed
qed

lemma split_js_no_sep: "sep \<notin> set s \<Longrightarrow> split_js sep s = [s]"
  by (induction s) auto

lemma split_js_append:
  "sep \<notin> set p \<Longrightarrow> split_js sep (p @ sep # rest) = p # split_js sep rest"
  by (induction p) auto

lemma split_join_js:
  "ps \<noteq> [] \<Longrightarrow> \<forall>p \<in> set ps. sep \<notin> set p \<Longrightarrow> split_js sep (join_js [sep] ps) = ps"
proof (induction ps)
  case Nil
  then show ?case by simp
next
  case (Cons p ps)
  show ?case
  proof (cases ps)
    case Nil
    with Cons.prems show ?thesis by (simp add: split_js_no_sep)
  next
    case (Cons q qs)
    with Cons.IH Cons.prems show ?thesis by (simp add: split_js_append)
  qed
qed

subsection \<open>Line wrapping\<close>

lemma js_simps [simp]: "js [] = []" "js (c # cs) = of_char c # js cs"
  by (simp_all add: js_def)

lemma wrap_loop_concat:
  "concat (wrap_loop line start parts) = concat parts @ drop start line"
proof (induction line start parts rule: wrap_loop.induct)
  case (1 line start parts)
  show ?case
  proof (cases "start < length line")
    case True
    have "concat (wrap_loop line start parts) =
          concat (wrap_loop line (start + maxWidth) (parts @ [slice line start (start + maxWidth)]))"
      using True by (subst wrap_loop.simps) simp
    also have "\<dots> = concat (parts @ [slice line start (start + maxWidth)]) @ drop (start + maxWidth) line"
      using 1 True by simp
    also have "\<dots> = concat parts @ drop start line"
      by (simp add: slice_def add.commute [of start] flip: drop_drop)
    finally show ?thesis .
  next
    case False
    then show ?thesis by (subst wrap_loop.simps) simp
  qed
qed

lemma wrap_loop_set:
  "p \<in> set (wrap_loop line start parts) \<Longrightarrow> p \<in> set parts \<or> set p \<subseteq> set line"
proof (induction line start parts rule: wrap_loop.induct)
  case (1 line start parts)
  show ?case
  proof (cases "start < length line")
    case True
    with 1 have "p \<in> set (parts @ [slice line start (start + maxWidth)]) \<or> set p \<subseteq> set line"
      by (subst (asm) (2) wrap_loop.simps) simp
    moreover have "set (slice line start (start + maxWidth)) \<subseteq> set line"
      unfolding slice_def by (meson set_take_subset set_drop_subset subset_trans)
    ultimately show ?thesis by auto
  next
    case False
    with 1(2) show ?thesis by (subst (asm) wrap_loop.simps) simp
  qed
qed

lemma wrap_loop_not_Nil: "start < length line \<Longrightarrow> wrap_loop line start parts \<noteq> []"
proof (induction line start parts rule: wrap_loop.induct)
  case (1 line start parts)
  show ?case
  proof (cases "start + maxWidth < length line")
    case True
    with 1 show ?thesis by (subst wrap_loop.simps) simp
  next
    case False
    with 1(2) show ?thesis
      by (subst wrap_loop.simps, subst wrap_loop.simps) simp
  qed
qed

lemma mapi_unprefix:
  "length pre = 2 \<Longrightarrow>
   mapi (\<lambda>i c. if i = 0 then c else drop 2 c) n
     (mapi (\<lambda>i p. if i = 0 then p else pre @ p) n parts) = parts"
  by (induction parts arbitrary: n) auto

lemma mapi_eq_Nil [simp]: "mapi f i xs = [] \<longleftrightarrow> xs = []"
  by (cases xs) auto

lemma set_mapi: "c \<in> set (mapi f i xs) \<Longrightarrow> \<exists>j p. p \<in> set xs \<and> c = f j p"
proof (induction xs arbitrary: i)
  case Nil
  then show ?case by simp
next
  case (Cons a xs)
  from Cons.prems have "c = f i a \<or> c \<in> set (mapi f (Suc i) xs)" by simp
  then show ?case
  proof
    assume "c = f i a"
    then show ?thesis by auto
  next
    assume "c \<in> set (mapi f (Suc i) xs)"
    from Cons.IH [OF this] show ?thesis by auto
  qed
qed

lemma wrapLine_concat: "concat (unprefix (wrapLine line)) = line"
  by (simp add: wrapLine_def unprefix_def mapi_unprefix wrap_loop_concat)

lemma wrapLine_not_Nil: "wrapLine line \<noteq> []"
proof (cases "ws_run3 line \<or> length line \<le> maxWidth")
  case True
  then show ?thesis by (auto simp: wrapLine_def)
next
  case False
  then have "0 < length line" by (auto simp: maxWidth_def)
  from wrap_loop_not_Nil [OF this] False show ?thesis by (simp add: wrapLine_def)
qed

lemma NL_notin_indent: "NL \<notin> set (js ''  '')"
  by (simp add: NL_def)

lemma wrapLine_no_NL:
  assumes "NL \<notin> set line" "c \<in> set (wrapLine line)"
  shows "NL \<notin> set c"
proof (cases "ws_run3 line \<or> length line \<le> maxWidth")
  case True
  with assms show ?thesis by (auto simp: wrapLine_def split: if_splits)
next
  case False
  with assms(2)
  have "c \<in> set (mapi (\<lambda>i p. if i = 0 then p else js ''  '' @ p) 0 (wrap_loop line 0 []))"
    by (simp add: wrapLine_def)
  from set_mapi [OF this] obtain j :: nat and p where p: "p \<in> set (wrap_loop line 0 [])"
    and c: "c = (if j = 0 then p else js ''  '' @ p)"
    by blast
  from wrap_loop_set [OF p] have "set p \<subseteq> set line" by simp
  with assms(1) c NL_notin_indent show ?thesis by auto
qed

lemma formatTerminalOutput_line:
  assumes "NL \<notin> set line"
  shows "split_js NL (formatTerminalOutput line) = wrapLine line"
  using assms wrapLine_no_NL [OF assms]
  by (simp add: formatTerminalOutput_def split_js_no_sep split_join_js wrapLine_not_Nil)

text \<open>
  Claim C8. A line (a text without line feed) of at most 80 code units that has no run of
  three whitespace code units is returned unchanged by \<open>formatTerminalOutput\<close>, so
  formatting it twice is the same as formatting it once; a line that has such a run is
  returned unchanged whatever its length.
\<close>

theorem formatTerminalOutput_short_identity:
  assumes "NL \<notin> set line"
  shows "(length line \<le> 80 \<and> \<not> ws_run3 line \<longrightarrow>
            formatTerminalOutput line = line \<and>
            formatTerminalOutput (formatTerminalOutput line) = formatTerminalOutput line) \<and>
         (ws_run3 line \<longrightarrow> formatTerminalOutput line = line)"
  using assms by (simp add: formatTerminalOutput_def split_js_no_sep wrapLine_def maxWidth_def)

theorem formatTerminalOutput_short_identity_witness:
  "NL \<notin> set (js ''ab'') \<and> length (js ''ab'') \<le> 80 \<and> \<not> ws_run3 (js ''ab'') \<and>
   formatTerminalOutput (js ''ab'') = js ''ab'' \<and>
   formatTerminalOutput (formatTerminalOutput (js ''ab'')) = formatTerminalOutput (js ''ab'') \<and>
   NL \<notin> set (js ''a   b'') \<and> ws_run3 (js ''a   b'') \<and>
   formatTerminalOutput (js ''a   b'') = js ''a   b''"
  using formatTerminalOutput_short_identity [of "js ''ab''"]
    formatTerminalOutput_short_identity [of "js ''a   b''"]
  by (simp add: NL_def isSpace_def)

text \<open>
  Claim C10. For a line with no run of three whitespace code units, the lines of the
  wrapped text are exactly the chunks made for it, and taking the two-space prefix off
  every chunk after the first and concatenating the chunks in order gives the line back.
\<close>

theorem formatTerminalOutput_lossless:
  assumes "\<not> ws_run3 line" and "NL \<notin> set line"
  shows "split_js NL (formatTerminalOutput line) = wrapLine line \<and>
         concat (unprefix (split_js NL (formatTerminalOutput line))) = line"
  using assms by (simp add: formatTerminalOutput_line wrapLine_concat)

theorem formatTerminalOutput_lossless_witness:
  "\<not> ws_run3 (replicate 100 0x61) \<and> NL \<notin> set (replicate 100 0x61) \<and>
   wrapLine (replicate 100 0x61) = [replicate 80 0x61, js ''  '' @ replicate 20 0x61] \<and>
   split_js NL (formatTerminalOutput (replicate 100 0x61)) = wrapLine (replicate 100 0x61) \<and>
   concat (unprefix (split_js NL (formatTerminalOutput (replicate 100 0x61)))) = replicate 100 0x61"
proof -
  have a: "\<not> ws_run3 (replicate 100 0x61)" by code_simp
  have b: "NL \<notin> set (replicate 100 (0x61 :: code_unit))" by (simp add: NL_def)
  have c: "wrapLine (replicate 100 0x61) = [replicate 80 0x61, js ''  '' @ replicate 20 0x61]"
    by code_simp
  from formatTerminalOutput_lossless [OF a b] a b c show ?thesis by blast
qed

subsection \<open>Persisted preference\<close>

text \<open>
  Claim C9, as the claim states it, fails: a stored value that is not a serialisation of
  a boolean does not read back as the default \<open>true\<close>. Here the stored value is
  \<open>yes\<close> and the preference reads \<open>false\<close>.
\<close>

theorem suppressWarnings_corrupt_counterexample:
  "js ''yes'' \<noteq> String_bool True \<and> js ''yes'' \<noteq> String_bool False \<and>
   suppressWarnings_init
     \<lparr>items = [js ''suppressWarnings'' \<mapsto> js ''yes''], refuses_writes = False\<rparr> = False"
  by (simp add: suppressWarnings_init_def getItem_def String_bool_def)

text \<open>
  Claim C9, amended. A missing value reads as the default \<open>true\<close>; a stored value reads
  as \<open>true\<close> exactly when it is the string \<open>true\<close>, every other string reads as
  \<open>false\<close>; and once a boolean has been stored (the store accepting the write), reading
  gives that boolean back.
\<close>

theorem suppressWarnings_roundtrip:
  "(getItem st (js ''suppressWarnings'') = None \<longrightarrow> suppressWarnings_init st = True) \<and>
   (getItem st (js ''suppressWarnings'') = Some v \<longrightarrow>
      suppressWarnings_init st = (v = js ''true'')) \<and>
   (\<not> refuses_writes st \<longrightarrow>
      suppressWarnings_init (fst (persist_suppressWarnings b st)) = b)"
  by (simp add: suppressWarnings_init_def getItem_def persist_suppressWarnings_def
      setItem_def String_bool_def)

theorem suppressWarnings_roundtrip_witness:
  "getItem \<lparr>items = Map.empty, refuses_writes = False\<rparr> (js ''suppressWarnings'') = None \<and>
   suppressWarnings_init \<lparr>items = Map.empty, refuses_writes = False\<rparr> = True \<and>
   suppressWarnings_init
     (fst (persist_suppressWarnings False \<lparr>items = Map.empty, refuses_writes = False\<rparr>)) = False \<and>
   getItem \<lparr>items = [js ''suppressWarnings'' \<mapsto> js ''false''], refuses_writes = False\<rparr>
     (js ''suppressWarnings'') = Some (js ''false'') \<and>
   suppressWarnings_init
     \<lparr>items = [js ''suppressWarnings'' \<mapsto> js ''false''], refuses_writes = False\<rparr> = False"
  using suppressWarnings_roundtrip
      [of "\<lparr>items = Map.empty, refuses_writes = False\<rparr>" "js ''x''" False]
    suppressWarnings_roundtrip
      [of "\<lparr>items = [js ''suppressWarnings'' \<mapsto> js ''false''], refuses_writes = False\<rparr>"
          "js ''false''" True]
  by (simp add: getItem_def)

subsection \<open>The shared interpreter is initialised once\<close>

lemma py_step_inv:
  assumes "py_inv m" and "py_step e m = (ps, m')"
  shows "py_inv m' \<and> (\<forall>p \<in> set ps. p = 0) \<and>
         (ps \<noteq> [] \<or> pyodideReady m = Some 0 \<longrightarrow> pyodideReady m' = Some 0)"
  using assms
  by (cases e)
     (auto simp: py_inv_def ensurePyodide_def loadPyodideOnce_def split: option.splits)

lemma py_run_inv:
  assumes "py_inv m" and "py_run es m = (ps, m')"
  shows "py_inv m' \<and> (\<forall>p \<in> set ps. p = 0) \<and>
         (ps \<noteq> [] \<or> pyodideReady m = Some 0 \<longrightarrow> pyodideReady m' = Some 0)"
  using assms
proof (induction es arbitrary: m ps m')
  case Nil
  then show ?case by simp
next
  case (Cons e es)
  obtain qs m1 where s: "py_step e m = (qs, m1)" by (cases "py_step e m")
  obtain rs m2 where r: "py_run es m1 = (rs, m2)" by (cases "py_run es m1")
  from Cons.prems(2) s r have eq: "ps = qs @ rs" "m' = m2" by auto
  note a = py_step_inv [OF Cons.prems(1) s]
  from a have "py_inv m1" by blast
  note b = Cons.IH [OF this r]
  from a b eq show ?case by auto
qed

text \<open>
  Claim C5. Over any sequence of calls of \<open>ensurePyodide\<close> and \<open>runPython\<close> and
  completions of the initialisation, starting from the freshly loaded module,
  \<open>window.loadPyodide\<close> is called at most once; every caller, whether the
  initialisation has completed or not, gets the promise of that one call; and once any
  call has been made the module holds that promise.
\<close>

theorem loadPyodideOnce_singleton:
  assumes "py_run es py_module_init = (ps, m)"
  shows "loads_started m \<le> 1 \<and> (\<forall>p \<in> set ps. p = 0) \<and>
         (ps \<noteq> [] \<longrightarrow> loads_started m = 1 \<and> pyodideReady m = Some 0)"
proof -
  have "py_inv py_module_init" by (simp add: py_inv_def py_module_init_def)
  from py_run_inv [OF this assms] show ?thesis
    by (auto simp: py_inv_def split: option.splits)
qed

theorem loadPyodideOnce_singleton_witness:
  "py_run [RunPython, EnsurePyodide, InitSettles, RunPython] py_module_init =
     ([0, 0, 0], \<lparr>pyodideReady = Some 0, loads_started = 1, settled = [0]\<rparr>) \<and>
   loads_started \<lparr>pyodideReady = Some 0, loads_started = 1, settled = [0]\<rparr> \<le> 1 \<and>
   set [0, 0, 0 :: nat] = {0}"
proof -
  have r: "py_run [RunPython, EnsurePyodide, InitSettles, RunPython] py_module_init =
     ([0, 0, 0], \<lparr>pyodideReady = Some 0, loads_started = 1, settled = [0]\<rparr>)"
    by (simp add: py_module_init_def loadPyodideOnce_def ensurePyodide_def)
  from loadPyodideOnce_singleton [OF r] r show ?thesis by simp
qed

subsection \<open>Warning filter and line classification\<close>

lemma startsWith_iff: "startsWith s p \<longleftrightarrow> (\<exists>b. s = p @ b)"
proof
  assume "startsWith s p"
  then have "s = p @ drop (length p) s"
    unfolding startsWith_def by (metis append_take_drop_id)
  then show "\<exists>b. s = p @ b" ..
next
  assume "\<exists>b. s = p @ b"
  then show "startsWith s p" by (auto simp: startsWith_def)
qed

lemma includes_js_iff: "includes_js s p \<longleftrightarrow> (\<exists>a b. s = a @ p @ b)"
proof (induction s)
  case Nil
  show ?case by auto
next
  case (Cons x xs)
  show ?case
  proof
    assume "includes_js (x # xs) p"
    then consider "startsWith (x # xs) p" | "includes_js xs p" by auto
    then show "\<exists>a b. x # xs = a @ p @ b"
    proof cases
      case 1
      then obtain b where "x # xs = p @ b" by (auto simp: startsWith_iff)
      then have "x # xs = [] @ p @ b" by simp
      then show ?thesis by blast
    next
      case 2
      with Cons obtain a b where "xs = a @ p @ b" by auto
      then have "x # xs = (x # a) @ p @ b" by simp
      then show ?thesis by blast
    qed
  next
    assume "\<exists>a b. x # xs = a @ p @ b"
    then obtain a b where ab: "x # xs = a @ p @ b" by blast
    show "includes_js (x # xs) p"
    proof (cases a)
      case Nil
      with ab have "startsWith (x # xs) p" unfolding startsWith_iff by auto
      then show ?thesis by simp
    next
      case (Cons y ys)
      with ab have "xs = ys @ p @ b" by simp
      with Cons.IH show ?thesis by auto
    qed
  qed
qed

lemma shouldFilterOutput_listed:
  "p \<in> set warningPatterns \<Longrightarrow> shouldFilterOutput True (a @ p @ b)"
proof -
  assume p: "p \<in> set warningPatterns"
  have "includes_js (a @ p @ b) p" unfolding includes_js_iff by blast
  with p show ?thesis unfolding shouldFilterOutput_def list_ex_iff by auto
qed

lemma formatTerminalOutput_id:
  "NL \<notin> set line \<Longrightarrow> ws_run3 line \<or> length line \<le> 80 \<Longrightarrow> formatTerminalOutput line = line"
  by (auto simp: formatTerminalOutput_def split_js_no_sep wrapLine_def maxWidth_def)

lemma TerminalNote_single:
  assumes "NL \<notin> set line"
  shows "TerminalNote lbl line =
         [0x2022] @ js '' ['' @ padEnd lbl 8 @ js ''] '' @
           (if length line > 80 then take 75 line @ js ''...'' else line)"
proof -
  define d where "d = (if length line > 80 then slice line 0 75 @ js ''...'' else line)"
  have nl: "NL \<notin> set d"
    using assms by (auto simp: d_def slice_def NL_def dest: in_set_takeD)
  have len: "length d \<le> 80" by (auto simp: d_def slice_def)
  have "formatTerminalOutput d = d" using nl len by (simp add: formatTerminalOutput_id)
  then have "split_js NL (formatTerminalOutput d) = [d]" using nl by (simp add: split_js_no_sep)
  then show ?thesis
    by (simp add: TerminalNote_def d_def [symmetric] Let_def) (simp add: d_def slice_def)
qed

text \<open>
  Claim C6, as the claim states it, fails: with suppression disabled, a line that matches
  the warning pattern is not always rendered as a warning note. The line
  \<open>$ FutureWarning: x\<close> contains an entry of the suppression list and matches
  \<open>/Warning:/i\<close>, is not dropped, and is rendered as an echoed command.
\<close>

theorem warning_classification_counterexample:
  "includes_js (js ''$ FutureWarning: x'') (js ''FutureWarning'') \<and>
   includes_ci (js ''$ FutureWarning: x'') (js ''Warning:'') \<and>
   shouldFilterOutput False (js ''$ FutureWarning: x'') = False \<and>
   renderLine (js ''$ FutureWarning: x'') = [0x25B6] @ js '' FutureWarning: x'' \<and>
   renderLine (js ''$ FutureWarning: x'') \<noteq>
     TerminalNote (js ''Warning'') (js ''$ FutureWarning: x'')"
  by code_simp

text \<open>
  Claim C6, amended. With suppression enabled, a chunk that contains an entry of the fixed
  list is filtered, and the stream callback leaves the transcript (and the raw text) as
  they were. With suppression disabled the filter drops nothing: every chunk that is not
  all whitespace is appended. In the transcript, a line that does not start with
  \<open>$ \<close> and contains \<open>Warning:\<close> or \<open>DeprecationWarning\<close> (ASCII letters in either
  case) is rendered as the note \<open>\<bullet> [Warning ] \<close> followed by the line, cut to 75 units and
  \<open>...\<close> when it is longer than 80; a line that starts with \<open>$ \<close> is rendered as an
  echoed command whatever else it contains.
\<close>

theorem warning_filter_and_classification:
  "(p \<in> set warningPatterns \<and> chunk = a @ p @ b \<longrightarrow>
      shouldFilterOutput True chunk \<and>
      stream_sink True captured chunk (transcript, raw) = (transcript, raw)) \<and>
   shouldFilterOutput False chunk = False \<and>
   (trim chunk \<noteq> [] \<longrightarrow>
      stream_sink False captured chunk (transcript, raw) =
        (transcript @ (if captured \<noteq> [] \<and> \<not> endsWith captured [NL] then [NL] else []) @ chunk,
         raw @ chunk)) \<and>
   (NL \<notin> set line \<and> \<not> startsWith line (js ''$ '') \<and>
    (includes_ci line (js ''Warning:'') \<or> includes_ci line (js ''DeprecationWarning'')) \<longrightarrow>
      renderLine line =
        [0x2022] @ js '' [Warning ] '' @
          (if length line > 80 then take 75 line @ js ''...'' else line)) \<and>
   (startsWith line (js ''$ '') \<longrightarrow> renderLine line = [0x25B6] @ js '' '' @ drop 2 line)"
proof (intro conjI impI)
  assume h: "p \<in> set warningPatterns \<and> chunk = a @ p @ b"
  then show f: "shouldFilterOutput True chunk" by (simp add: shouldFilterOutput_listed)
  then show "stream_sink True captured chunk (transcript, raw) = (transcript, raw)"
    by (simp add: stream_sink_def)
next
  show "shouldFilterOutput False chunk = False" by (simp add: shouldFilterOutput_def)
next
  assume "trim chunk \<noteq> []"
  then show "stream_sink False captured chunk (transcript, raw) =
        (transcript @ (if captured \<noteq> [] \<and> \<not> endsWith captured [NL] then [NL] else []) @ chunk,
         raw @ chunk)"
    by (simp add: stream_sink_def shouldFilterOutput_def)
next
  assume h: "NL \<notin> set line \<and> \<not> startsWith line (js ''$ '') \<and>
    (includes_ci line (js ''Warning:'') \<or> includes_ci line (js ''DeprecationWarning''))"
  then have "renderLine line = TerminalNote (js ''Warning'') line"
    unfolding renderLine_def by presburger
  also have "\<dots> = [0x2022] @ js '' ['' @ padEnd (js ''Warning'') 8 @ js ''] '' @
          (if length line > 80 then take 75 line @ js ''...'' else line)"
  proof (rule TerminalNote_single)
    from h show "NL \<notin> set line" by blast
  qed
  finally show "renderLine line =
        [0x2022] @ js '' [Warning ] '' @
          (if length line > 80 then take 75 line @ js ''...'' else line)"
    by (simp add: padEnd_def SP_def)
next
  assume "startsWith line (js ''$ '')"
  then show "renderLine line = [0x25B6] @ js '' '' @ drop 2 line"
    unfolding renderLine_def by presburger
qed

theorem warning_filter_and_classification_witness:
  "js ''FutureWarning'' \<in> set warningPatterns \<and>
   stream_sink True [] (js ''a FutureWarning b'') (js ''t'', js ''r'') = (js ''t'', js ''r'') \<and>
   trim (js ''ok'') \<noteq> [] \<and>
   stream_sink False [] (js ''ok'') (js ''t'', js ''r'') = (js ''tok'', js ''rok'') \<and>
   NL \<notin> set (js ''UserWarning: x'') \<and> \<not> startsWith (js ''UserWarning: x'') (js ''$ '') \<and>
   includes_ci (js ''UserWarning: x'') (js ''Warning:'') \<and>
   renderLine (js ''UserWarning: x'') = [0x2022] @ js '' [Warning ] UserWarning: x'' \<and>
   startsWith (js ''$ ls'') (js ''$ '') \<and>
   renderLine (js ''$ ls'') = [0x25B6] @ js '' ls''"
proof -
  have 1: "js ''FutureWarning'' \<in> set warningPatterns" by (simp add: warningPatterns_def)
  have 2: "trim (js ''ok'') \<noteq> []" by code_simp
  have 3: "NL \<notin> set (js ''UserWarning: x'')" by code_simp
  have 4: "\<not> startsWith (js ''UserWarning: x'') (js ''$ '')" by code_simp
  have 5: "includes_ci (js ''UserWarning: x'') (js ''Warning:'')" by code_simp
  have 6: "startsWith (js ''$ ls'') (js ''$ '')" by code_simp
  have 7: "js ''a FutureWarning b'' = js ''a '' @ js ''FutureWarning'' @ js '' b''" by simp
  note w1 = warning_filter_and_classification
    [of "js ''FutureWarning''" "js ''a FutureWarning b''" "js ''a ''" "js '' b''" "[]"
        "js ''t''" "js ''r''" "js ''UserWarning: x''"]
  note w2 = warning_filter_and_classification
    [of "js ''FutureWarning''" "js ''ok''" "[]" "[]" "[]"
        "js ''t''" "js ''r''" "js ''$ ls''"]
  from w1 1 7
  have a: "stream_sink True [] (js ''a FutureWarning b'') (js ''t'', js ''r'') = (js ''t'', js ''r'')"
    by blast
  from w2 2 have b: "stream_sink False [] (js ''ok'') (js ''t'', js ''r'') = (js ''tok'', js ''rok'')"
    by simp
  from w1 3 4 5
  have c: "renderLine (js ''UserWarning: x'') = [0x2022] @ js '' [Warning ] UserWarning: x''"
    by simp
  from w2 6 have d: "renderLine (js ''$ ls'') = [0x25B6] @ js '' ls''" by simp
  from 1 2 3 4 5 6 a b c d show ?thesis by blast
qed

subsection \<open>Tables\<close>

text \<open>
  Claim C7 at the row list that is empty: the body is the empty text, so the table has an
  empty line between the separator row and the bottom border, and its lines are 5, 5, 5,
  0 and 5 code units long.
\<close>

theorem buildTableString_no_rows:
  "buildTableString [js ''a''] [] =
     [0x250C, 0x2500, 0x2500, 0x2500, 0x2510, NL,
      0x2502, SP, 0x61, SP, 0x2502, NL,
      0x251C, 0x2500, 0x2500, 0x2500, 0x2524, NL,
      NL,
      0x2514, 0x2500, 0x2500, 0x2500, 0x2518] \<and>
   map length (split_js NL (buildTableString [js ''a''] [])) = [5, 5, 5, 0, 5]"
  by code_simp

subsection \<open>Tables with at least one row\<close>

lemma length_mapi [simp]: "length (mapi f k xs) = length xs"
  by (induction xs arbitrary: k) auto

lemma nth_mapi: "i < length xs \<Longrightarrow> mapi f k xs ! i = f (k + i) (xs ! i)"
proof (induction xs arbitrary: k i)
  case Nil
  then show ?case by simp
next
  case (Cons x xs)
  then show ?case by (cases i) auto
qed

lemma join_js_snoc: "ps \<noteq> [] \<Longrightarrow> join_js sep (ps @ [q]) = join_js sep ps @ sep @ q"
proof (induction ps)
  case Nil
  then show ?case by simp
next
  case (Cons p ps)
  then show ?case by (cases ps) (simp_all add: join_js_Cons)
qed

lemma fold_max_ge: "a \<le> fold max xs (a :: nat)"
proof (induction xs arbitrary: a)
  case Nil
  show ?case by simp
next
  case (Cons x xs)
  have "a \<le> max x a" by simp
  also have "\<dots> \<le> fold max xs (max x a)" by (rule Cons.IH)
  finally show ?case by simp
qed

lemma fold_max_mem: "x \<in> set xs \<Longrightarrow> x \<le> fold max xs (a :: nat)"
proof (induction xs arbitrary: a)
  case Nil
  then show ?case by simp
next
  case (Cons y ys)
  show ?case
  proof (cases "x = y")
    case True
    have "x \<le> max y a" using True by simp
    also have "\<dots> \<le> fold max ys (max y a)" by (rule fold_max_ge)
    finally show ?thesis by simp
  next
    case False
    with Cons.prems have "x \<in> set ys" by simp
    from Cons.IH [OF this] show ?thesis by simp
  qed
qed

lemma length_padEnd [simp]: "length (padEnd s n) = max (length s) n"
  by (auto simp: padEnd_def)

lemma length_colWidths [simp]: "length (colWidths headers rows) = length headers"
  by (simp add: colWidths_def)

lemma nth_colWidths:
  "i < length headers \<Longrightarrow>
   colWidths headers rows ! i =
     fold max (map (\<lambda>r. length (cellText r i)) rows) (length (headers ! i)) + 2"
  by (simp add: colWidths_def nth_mapi padding_def)

lemma table_line_boxed:
  "\<exists>a m b segs. table_line ws l c r = [a] @ join_js [m] segs @ [b] \<and> map length segs = ws"
proof -
  have "map length (map (\<lambda>w. replicate w (0x2500 :: code_unit)) ws) = ws"
    by (induction ws) auto
  then show ?thesis unfolding table_line_def by blast
qed

lemma table_head_boxed:
  "\<exists>a m b segs. table_head (colWidths headers rows) headers = [a] @ join_js [m] segs @ [b] \<and>
     map length segs = colWidths headers rows"
proof -
  let ?ws = "colWidths headers rows"
  let ?segs = "mapi (\<lambda>i h. padEnd (js '' '' @ h @ js '' '') (width_at ?ws i)) 0 headers"
  have "map length ?segs = ?ws"
  proof (rule nth_equalityI)
    show "length (map length ?segs) = length ?ws" by simp
  next
    fix i assume "i < length (map length ?segs)"
    then have i: "i < length headers" by simp
    have "length (headers ! i) + 2 \<le> ?ws ! i"
      using fold_max_ge [of "length (headers ! i)"] by (simp add: nth_colWidths [OF i])
    with i show "map length ?segs ! i = ?ws ! i"
      by (simp add: nth_mapi width_at_def)
  qed
  then show ?thesis unfolding table_head_def by blast
qed

lemma table_row_boxed:
  assumes "row \<in> set rows" and "length row = length headers"
  shows "\<exists>a m b segs. table_row (colWidths headers rows) row = [a] @ join_js [m] segs @ [b] \<and>
     map length segs = colWidths headers rows"
proof -
  let ?ws = "colWidths headers rows"
  let ?segs = "mapi (\<lambda>i c. padEnd (js '' '' @ c) (width_at ?ws i)) 0 row"
  have "map length ?segs = ?ws"
  proof (rule nth_equalityI)
    show "length (map length ?segs) = length ?ws" using assms(2) by simp
  next
    fix i assume "i < length (map length ?segs)"
    then have i: "i < length headers" and ir: "i < length row" using assms(2) by simp_all
    have "length (cellText row i) \<in> set (map (\<lambda>r. length (cellText r i)) rows)"
      using assms(1) by auto
    from fold_max_mem [OF this, of "length (headers ! i)"]
    have "length (row ! i) + 2 \<le> ?ws ! i"
      using ir by (simp add: nth_colWidths [OF i] cellText_def)
    with i ir show "map length ?segs ! i = ?ws ! i"
      by (simp add: nth_mapi width_at_def)
  qed
  then show ?thesis unfolding table_row_def by blast
qed

lemma table_body_lines:
  assumes "rest \<noteq> []"
  shows "join_js [NL]
           (mapi (\<lambda>ri row. let txt = f row in if Suc ri < k + length rest then txt @ [NL] @ mid else txt)
              k rest) =
         join_js [NL] (concat (map (\<lambda>r. [f r, mid]) (butlast rest)) @ [f (last rest)])"
  using assms
proof (induction rest arbitrary: k)
  case Nil
  then show ?case by simp
next
  case (Cons r rest)
  show ?case
  proof (cases rest)
    case Nil
    then show ?thesis by simp
  next
    case (Cons r' rs)
    then have ne: "rest \<noteq> []" by simp
    have ne2: "mapi (\<lambda>ri row. let txt = f row in
                 if Suc ri < Suc k + length rest then txt @ [NL] @ mid else txt) (Suc k) rest \<noteq> []"
      using ne by (cases rest) auto
    from Cons.IH [OF ne, of "Suc k"] ne ne2 show ?thesis
      by (simp add: join_js_Cons Let_def)
  qed
qed

text \<open>
  For a row list that is not empty and whose rows have as many cells as there are
  headers, the table is the top border, the header, the separator row, the body rows with
  a separator row between each two, and the bottom border, joined by line feeds; and each
  of these lines is one border character, then segments as long as the column widths
  with one separator character between them, then one border character. So they all
  have the same length and their separators are at the same positions (they are the
  lines of the string when no header and no cell contains a line feed). A width is the
  largest of the header's length and the cells' lengths in the column, plus 2
  (\<open>nth_colWidths\<close>).
\<close>

lemma buildTableString_aligned:
  assumes "rows \<noteq> []" and "\<forall>r \<in> set rows. length r = length headers"
  shows "\<exists>lines.
           buildTableString headers rows = join_js [NL] lines \<and>
           lines =
             [table_line (colWidths headers rows) 0x250C 0x252C 0x2510,
              table_head (colWidths headers rows) headers,
              table_line (colWidths headers rows) 0x251C 0x253C 0x2524] @
             concat (map (\<lambda>r. [table_row (colWidths headers rows) r,
                                table_line (colWidths headers rows) 0x251C 0x253C 0x2524])
                       (butlast rows)) @
             [table_row (colWidths headers rows) (last rows),
              table_line (colWidths headers rows) 0x2514 0x2534 0x2518] \<and>
           (\<forall>l \<in> set lines. \<exists>a m b segs.
              l = [a] @ join_js [m] segs @ [b] \<and> map length segs = colWidths headers rows)"
proof -
  let ?ws = "colWidths headers rows"
  let ?top = "table_line ?ws 0x250C 0x252C 0x2510"
  let ?mid = "table_line ?ws 0x251C 0x253C 0x2524"
  let ?bot = "table_line ?ws 0x2514 0x2534 0x2518"
  let ?blines = "concat (map (\<lambda>r. [table_row ?ws r, ?mid]) (butlast rows)) @ [table_row ?ws (last rows)]"
  let ?lines = "[?top, table_head ?ws headers, ?mid] @
             concat (map (\<lambda>r. [table_row ?ws r, ?mid]) (butlast rows)) @
             [table_row ?ws (last rows), ?bot]"
  have body: "join_js [NL]
           (mapi (\<lambda>ri row. if Suc ri < length rows then table_row ?ws row @ [NL] @ ?mid
                            else table_row ?ws row) 0 rows) =
         join_js [NL] ?blines"
    using table_body_lines [OF assms(1), of "table_row ?ws" 0 ?mid] by (simp add: Let_def)
  have "join_js [NL] ?lines = ?top @ [NL] @ table_head ?ws headers @ [NL] @ ?mid @ [NL] @
          join_js [NL] (?blines @ [?bot])"
    by (simp add: join_js_Cons)
  also have "\<dots> = ?top @ [NL] @ table_head ?ws headers @ [NL] @ ?mid @ [NL] @
          join_js [NL] ?blines @ [NL] @ ?bot"
    by (subst join_js_snoc) simp_all
  also have "\<dots> = buildTableString headers rows"
    by (simp add: buildTableString_def Let_def body)
  finally have eq: "buildTableString headers rows = join_js [NL] ?lines" by simp
  have al: "\<forall>l \<in> set ?lines. \<exists>a m b segs.
              l = [a] @ join_js [m] segs @ [b] \<and> map length segs = ?ws"
  proof
    fix l assume "l \<in> set ?lines"
    then have "l = ?top \<or> l = table_head ?ws headers \<or> l = ?mid \<or> l = ?bot \<or>
        l = table_row ?ws (last rows) \<or> (\<exists>r \<in> set (butlast rows). l = table_row ?ws r)"
      by auto
    moreover have "last rows \<in> set rows" by (rule last_in_set [OF assms(1)])
    moreover have "set (butlast rows) \<subseteq> set rows" by (auto dest: in_set_butlastD)
    ultimately have "l = ?top \<or> l = table_head ?ws headers \<or> l = ?mid \<or> l = ?bot \<or>
        (\<exists>r \<in> set rows. l = table_row ?ws r)"
      by blast
    then show "\<exists>a m b segs. l = [a] @ join_js [m] segs @ [b] \<and> map length segs = ?ws"
    proof (elim disjE bexE)
      fix r assume "r \<in> set rows" "l = table_row ?ws r"
      with assms(2) table_row_boxed [of r rows headers] show ?thesis by blast
    qed (simp_all only: table_line_boxed table_head_boxed)
  qed
  from eq al show ?thesis by blast
qed

subsection \<open>Dispatch of command actions in the web application\<close>

lemma fold_stream_sink_appends:
  "\<exists>r. fst (fold (\<lambda>(ch, t). stream_sink b c t) chunks (tr, raw)) = tr @ r"
proof (induction chunks arbitrary: tr raw)
  case Nil
  show ?case by simp
next
  case (Cons x xs)
  obtain ch t where x: "x = (ch, t)" by (cases x)
  obtain tr1 raw1 where s: "stream_sink b c t (tr, raw) = (tr1, raw1)"
    by (cases "stream_sink b c t (tr, raw)")
  then obtain r1 where r1: "tr1 = tr @ r1"
    by (auto simp: stream_sink_def Let_def split: if_splits)
  from Cons.IH [of tr1 raw1] obtain r where
    "fst (fold (\<lambda>(ch, t). stream_sink b c t) xs (tr1, raw1)) = tr1 @ r" by blast
  with x s r1 show ?case by simp
qed

lemma replace_python_prefix_strip:
  assumes "startsWith tgt (js ''python '')"
  shows "replace_python_prefix tgt = dropWhile isSpace (drop 6 tgt)"
proof -
  from assms obtain b where b: "tgt = js ''python '' @ b" by (auto simp: startsWith_iff)
  then have "startsWith tgt (js ''python'')" "drop 6 tgt = SP # b"
    by (simp_all add: startsWith_def SP_def)
  then show ?thesis by (simp add: replace_python_prefix_def isSpace_def SP_def)
qed

lemma runAction_command_echo:
  "\<exists>rest. output (runAction_command e tgt s) = output s @ js ''$ '' @ tgt @ [NL] @ rest"
proof (cases "startsWith tgt (js ''python '')")
  case False
  then show ?thesis by (simp add: runAction_command_def appendOutput_def Let_def)
next
  case True
  define path where "path = replace_python_prefix tgt"
  define base where "base = output s @ js ''$ '' @ tgt @ [NL] @ loading_line"
  show ?thesis
  proof (cases "fetch_text e (js ''/'' @ path)")
    case None
    with True show ?thesis
      by (simp add: runAction_command_def appendOutput_def Let_def path_def)
  next
    case (Some src)
    define code where "code = (if suppressWarnings s then warnings_preamble @ src else src)"
    obtain chunks returned where rp: "runPython e code = (chunks, returned)"
      by (cases "runPython e code")
    obtain tr raw where f: "fold (\<lambda>(ch, t). stream_sink (suppressWarnings s) (output s) t)
        chunks (base, []) = (tr, raw)"
      by (cases "fold (\<lambda>(ch, t). stream_sink (suppressWarnings s) (output s) t) chunks (base, [])")
    from fold_stream_sink_appends [of "suppressWarnings s" "output s" chunks base "[]"] f
    obtain r where r: "tr = base @ r" by auto
    from True Some rp f r show ?thesis
      by (simp add: runAction_command_def appendOutput_def Let_def path_def [symmetric]
          code_def [symmetric] base_def [symmetric])
         (auto simp: base_def Let_def appendOutput_def)
  qed
qed

lemma runAction_command_fetched:
  assumes "startsWith tgt (js ''python '')"
  shows "fetched (runAction_command e tgt s) = fetched s @ [js ''/'' @ replace_python_prefix tgt]"
    and "fetch_text e (js ''/'' @ replace_python_prefix tgt) = Some src \<Longrightarrow>
         py_runs (runAction_command e tgt s) =
           py_runs s @ [(if suppressWarnings s then warnings_preamble else []) @ src]"
  using assms
  by (auto simp: runAction_command_def appendOutput_def Let_def split: option.splits prod.splits)

text \<open>
  Claim C4, as the claim states it, fails where it says that the prefix \<open>python \<close> is
  what is stripped: for the target \<open>python  a.py\<close> (two spaces) the rest after the
  prefix is \<open> a.py\<close>, and the path requested is \<open>/a.py\<close>.
\<close>

theorem runAction_python_prefix_counterexample:
  "startsWith (js ''python  a.py'') (js ''python '') \<and>
   drop 7 (js ''python  a.py'') = js '' a.py'' \<and>
   fetched (fst (runAction env_offline (command_action (js ''python  a.py'')) app_blank)) =
     [js ''/a.py'']"
  by code_simp

text \<open>
  Claim C4, amended. For a command action with a non-empty target the transcript first
  receives the echo line \<open>$ \<close> + target. If the target begins with \<open>python \<close> (in
  this case, with one space), the word \<open>python\<close> and the whole run of whitespace after
  it are removed, the rest is requested from the content store, and when the store
  answers, the source, with the warning directives put before it if suppression is
  enabled, is given to the interpreter. For any other target the transcript receives the
  echo line and the one fixed diagnostic line, and nothing else changes: nothing is
  requested and nothing is run.
\<close>

theorem runAction_command_dispatch:
  assumes "action a = Some Command \<or> action a = None"
    and "target a = Some tgt" and "tgt \<noteq> []"
  shows "(\<exists>rest. output (fst (runAction e a s)) = output s @ js ''$ '' @ tgt @ [NL] @ rest) \<and>
         (startsWith tgt (js ''python '') \<longrightarrow>
            fetched (fst (runAction e a s)) =
              fetched s @ [js ''/'' @ dropWhile isSpace (drop 6 tgt)] \<and>
            (fetch_text e (js ''/'' @ dropWhile isSpace (drop 6 tgt)) = Some src \<longrightarrow>
               py_runs (fst (runAction e a s)) =
                 py_runs s @ [(if suppressWarnings s then warnings_preamble else []) @ src])) \<and>
         (\<not> startsWith tgt (js ''python '') \<longrightarrow>
            runAction e a s =
              (s\<lparr>output := output s @ js ''$ '' @ tgt @ [NL] @ cannot_execute_line\<rparr>, Done))"
proof -
  from assms have ra: "runAction e a s = (runAction_command e tgt s, Done)"
    by (auto simp: runAction_def)
  show ?thesis
  proof (intro conjI impI)
    from runAction_command_echo [of e tgt s] ra
    show "\<exists>rest. output (fst (runAction e a s)) = output s @ js ''$ '' @ tgt @ [NL] @ rest"
      by simp
  next
    assume p: "startsWith tgt (js ''python '')"
    with runAction_command_fetched(1) [OF p, of e s] ra
    show "fetched (fst (runAction e a s)) = fetched s @ [js ''/'' @ dropWhile isSpace (drop 6 tgt)]"
      by (simp add: replace_python_prefix_strip)
  next
    assume p: "startsWith tgt (js ''python '')"
      and f: "fetch_text e (js ''/'' @ dropWhile isSpace (drop 6 tgt)) = Some src"
    from f p have "fetch_text e (js ''/'' @ replace_python_prefix tgt) = Some src"
      by (simp add: replace_python_prefix_strip)
    from runAction_command_fetched(2) [OF p this, of s] ra
    show "py_runs (fst (runAction e a s)) =
            py_runs s @ [(if suppressWarnings s then warnings_preamble else []) @ src]"
      by simp
  next
    assume "\<not> startsWith tgt (js ''python '')"
    with ra show "runAction e a s =
        (s\<lparr>output := output s @ js ''$ '' @ tgt @ [NL] @ cannot_execute_line\<rparr>, Done)"
      by (simp add: runAction_command_def appendOutput_def Let_def)
  qed
qed

theorem runAction_command_dispatch_witness:
  "action (command_action (js ''python demo.py'')) = Some Command \<and>
   target (command_action (js ''python demo.py'')) = Some (js ''python demo.py'') \<and>
   startsWith (js ''python demo.py'') (js ''python '') \<and>
   fetch_text env_demo (js ''/demo.py'') = Some (js ''print(\"hi\")'') \<and>
   fetched (fst (runAction env_demo (command_action (js ''python demo.py'')) app_blank)) =
     [js ''/demo.py''] \<and>
   py_runs (fst (runAction env_demo (command_action (js ''python demo.py'')) app_blank)) =
     [warnings_preamble @ js ''print(\"hi\")''] \<and>
   \<not> startsWith (js ''ls'') (js ''python '') \<and>
   runAction env_demo (command_action (js ''ls'')) app_blank =
     (app_blank\<lparr>output := js ''$ ls'' @ [NL] @ cannot_execute_line\<rparr>, Done)"
proof -
  have 1: "action (command_action (js ''python demo.py'')) = Some Command \<or>
           action (command_action (js ''python demo.py'')) = None"
    and 2: "target (command_action (js ''python demo.py'')) = Some (js ''python demo.py'')"
    and 3: "js ''python demo.py'' \<noteq> []"
    by (simp_all add: command_action_def)
  have 4: "action (command_action (js ''ls'')) = Some Command \<or>
           action (command_action (js ''ls'')) = None"
    and 5: "target (command_action (js ''ls'')) = Some (js ''ls'')"
    and 6: "js ''ls'' \<noteq> []"
    by (simp_all add: command_action_def)
  have 7: "startsWith (js ''python demo.py'') (js ''python '')" by code_simp
  have 8: "\<not> startsWith (js ''ls'') (js ''python '')" by code_simp
  have 9: "dropWhile isSpace (drop 6 (js ''python demo.py'')) = js ''demo.py''" by code_simp
  have 10: "fetch_text env_demo (js ''/demo.py'') = Some (js ''print(\"hi\")'')"
    by (simp add: env_demo_def)
  have 11: "fetched app_blank = []" "py_runs app_blank = []" "suppressWarnings app_blank"
    "output app_blank = []"
    by (simp_all add: app_blank_def)
  note w1 = runAction_command_dispatch
    [OF 1 2 3, of env_demo app_blank "js ''print(\"hi\")''"]
  note w2 = runAction_command_dispatch [OF 4 5 6, of env_demo app_blank "[]"]
  from w1 7 9 10 11
  have a: "fetched (fst (runAction env_demo (command_action (js ''python demo.py'')) app_blank)) =
     [js ''/demo.py'']"
    and b: "py_runs (fst (runAction env_demo (command_action (js ''python demo.py'')) app_blank)) =
     [warnings_preamble @ js ''print(\"hi\")'']"
    by simp_all
  from w2 8 11
  have c: "runAction env_demo (command_action (js ''ls'')) app_blank =
     (app_blank\<lparr>output := js ''$ ls'' @ [NL] @ cannot_execute_line\<rparr>, Done)"
    by simp
  from 1 2 7 8 10 a b c show ?thesis by (simp add: command_action_def)
qed

subsection \<open>Dispatch of tests actions\<close>

text \<open>
  Claim C3 in the web application, at the well-formed target \<open>a.py | run a.py\<close>: the
  tests action sets the file path and appends the echo line, and returns; the command
  action \<open>run a.py\<close>, dispatched after the file has been forwarded, appends the echo line
  and the diagnostic line. The two results differ, where the claim says that the tests
  action then behaves as that command action.
\<close>

theorem runAction_tests_echo_only:
  "wf_tests_target (js ''a.py | run a.py'') \<and>
   output (fst (runAction env_offline (tests_action (js ''a.py | run a.py'')) app_blank)) =
     js ''$ run a.py'' @ [NL] \<and>
   output (fst (runAction env_offline (command_action (js ''run a.py''))
                  (app_blank\<lparr>currentFilePath := js ''a.py''\<rparr>))) =
     js ''$ run a.py'' @ [NL] @ cannot_execute_line \<and>
   fst (runAction env_offline (tests_action (js ''a.py | run a.py'')) app_blank) \<noteq>
   fst (runAction env_offline (command_action (js ''run a.py''))
          (app_blank\<lparr>currentFilePath := js ''a.py''\<rparr>))"
  by code_simp

text \<open>
  The dispatcher of the editor extension, for a well-formed tests target: it forwards the
  trimmed file part to the file side channel and then is the dispatch of a command action
  whose target is the trimmed command part and whose terminal name is absent.
\<close>

lemma runAction_ext_tests:
  assumes "wf_tests_target tgt" and "split_js 0x7C tgt = [file, command]"
  shows "runAction_ext (js ''tests'') tgt term s =
           runAction_ext (js ''command'') (trim command) [] (openFile (trim file) s)"
    and "openFile (trim file) s = s\<lparr>effects := effects s @ [OpenFile (trim file)]\<rparr>"
proof -
  show "runAction_ext (js ''tests'') tgt term s =
           runAction_ext (js ''command'') (trim command) [] (openFile (trim file) s)"
    using assms(2) by (simp add: runAction_ext_def runTestAction_def)
  from assms have "trim file \<noteq> []" by (simp add: wf_tests_target_def)
  then show "openFile (trim file) s = s\<lparr>effects := effects s @ [OpenFile (trim file)]\<rparr>"
    by (simp add: openFile_def)
qed

text \<open>
  What the tests branch of the web application does with a target that has exactly one
  bar: nothing after the file path and the echo line.
\<close>

lemma runAction_tests_effect:
  assumes "split_js 0x7C tgt = [file, command]"
    and "action a = Some Tests" and "target a = Some tgt"
  shows "runAction e a st =
           (st\<lparr>currentFilePath := trim file,
               output := output st @ js ''$ '' @ trim command @ [NL]\<rparr>, Done)"
proof -
  from assms(1) have "tgt \<noteq> []" by auto
  with assms show ?thesis by (simp add: runAction_def appendOutput_def)
qed

subsection \<open>The terminal pool\<close>

lemma findIndex_Some:
  "findIndex P xs = Some i \<Longrightarrow> i < length xs \<and> P (xs ! i)"
proof (induction xs arbitrary: i)
  case Nil
  then show ?case by simp
next
  case (Cons x xs)
  then show ?case by (cases "P x") auto
qed

lemma findIndex_None: "findIndex P xs = None \<longleftrightarrow> (\<forall>x \<in> set xs. \<not> P x)"
  by (induction xs) auto

lemma findIndex_update:
  "i < length xs \<Longrightarrow> P y = P (xs ! i) \<Longrightarrow> findIndex P (xs[i := y]) = findIndex P xs"
proof (induction xs arbitrary: i)
  case Nil
  then show ?case by simp
next
  case (Cons x xs)
  then show ?case by (cases i) auto
qed

lemma findIndex_snoc:
  "findIndex P xs = None \<Longrightarrow> P y \<Longrightarrow> findIndex P (xs @ [y]) = Some (length xs)"
  by (induction xs) (auto split: if_splits)

lemma splice1_findIndex:
  "distinct (map f xs) \<Longrightarrow> findIndex (\<lambda>x. f x = k) xs = Some i \<Longrightarrow>
   splice1 i xs = filter (\<lambda>x. f x \<noteq> k) xs"
proof (induction xs arbitrary: i)
  case Nil
  then show ?case by simp
next
  case (Cons x xs)
  show ?case
  proof (cases "f x = k")
    case True
    with Cons.prems have "i = 0" by simp
    moreover have "\<forall>y \<in> set xs. f y \<noteq> k"
    proof
      fix y assume "y \<in> set xs"
      then have "f y \<in> f ` set xs" by (rule imageI)
      moreover from Cons.prems(1) have "f x \<notin> f ` set xs" by simp
      ultimately show "f y \<noteq> k" using True by auto
    qed
    ultimately show ?thesis using True by (simp add: splice1_def)
  next
    case False
    with Cons.prems obtain j where j: "findIndex (\<lambda>x. f x = k) xs = Some j" "i = Suc j"
      by auto
    with Cons.IH [of j] Cons.prems(1) False show ?thesis by (simp add: splice1_def)
  qed
qed

lemma filter_absent: "findIndex (\<lambda>x. f x = k) xs = None \<Longrightarrow> filter (\<lambda>x. f x \<noteq> k) xs = xs"
  by (simp add: findIndex_None)

lemma on_close_eq:
  assumes "distinct (map (\<lambda>e. tid (terminal e)) (terminals s))"
  shows "on_close t s = s\<lparr>terminals := filter (\<lambda>e. tid (terminal e) \<noteq> tid t) (terminals s)\<rparr>"
proof (cases "findIndex (\<lambda>e. tid (terminal e) = tid t) (terminals s)")
  case None
  then show ?thesis by (simp add: on_close_def filter_absent)
next
  case (Some i)
  from splice1_findIndex [OF assms Some] Some show ?thesis by (simp add: on_close_def)
qed

lemma on_close_funpow:
  assumes "distinct (map (\<lambda>e. tid (terminal e)) (terminals s))"
  shows "((on_close t) ^^ Suc n) s =
         s\<lparr>terminals := filter (\<lambda>e. tid (terminal e) \<noteq> tid t) (terminals s)\<rparr>"
proof (induction n)
  case 0
  show ?case using on_close_eq [OF assms] by simp
next
  case (Suc n)
  let ?s1 = "s\<lparr>terminals := filter (\<lambda>e. tid (terminal e) \<noteq> tid t) (terminals s)\<rparr>"
  have d: "distinct (map (\<lambda>e. tid (terminal e)) (terminals ?s1))"
    using assms by (simp add: distinct_map_filter)
  have "((on_close t) ^^ Suc (Suc n)) s = on_close t ?s1" using Suc by simp
  also have "\<dots> = ?s1" using on_close_eq [OF d, of t] by simp
  finally show ?case .
qed

lemma signal_session_closed_eq:
  assumes "distinct (map (\<lambda>e. tid (terminal e)) (terminals s))" and "0 < close_listeners s"
  shows "signal_session_closed t s =
         s\<lparr>window_terminals := filter (\<lambda>w. tid w \<noteq> tid t) (window_terminals s),
           terminals := filter (\<lambda>e. tid (terminal e) \<noteq> tid t) (terminals s)\<rparr>"
proof -
  from assms(2) obtain n where n: "close_listeners s = Suc n" by (cases "close_listeners s") auto
  let ?s0 = "s\<lparr>window_terminals := filter (\<lambda>w. tid w \<noteq> tid t) (window_terminals s)\<rparr>"
  have "distinct (map (\<lambda>e. tid (terminal e)) (terminals ?s0))" using assms(1) by simp
  from on_close_funpow [where t = t and n = n, OF this] n show ?thesis
    by (simp add: signal_session_closed_def)
qed

lemma ensure_terminal_found:
  assumes "findIndex (\<lambda>e. tname (terminal e) = name) (terminals s) = Some i"
    and "list_ex (\<lambda>t. tname t = name) (window_terminals s)"
  shows "ensure_terminal name s = (i, s)"
  using assms by (simp add: ensure_terminal_def)

lemma ensure_terminal_absent:
  assumes "findIndex (\<lambda>e. tname (terminal e) = name) (terminals s) = None"
  shows "ensure_terminal name s =
         (length (terminals s),
          s\<lparr>window_terminals := window_terminals s @ [\<lparr>tid = created s, tname = name\<rparr>],
            created := Suc (created s),
            integration_listeners := integration_listeners s @ [\<lparr>tid = created s, tname = name\<rparr>],
            close_listeners := Suc (close_listeners s),
            terminals := terminals s @ [\<lparr>terminal = \<lparr>tid = created s, tname = name\<rparr>, idle = True\<rparr>]\<rparr>)"
  using assms by (simp add: ensure_terminal_def createTerminal_def Let_def)

lemma run_found:
  assumes "findIndex (\<lambda>e. tname (terminal e) = name) (terminals s) = Some i"
    and "list_ex (\<lambda>t. tname t = name) (window_terminals s)"
  shows "runCommandInTerminal cmd name s =
         (if idle (terminals s ! i)
          then (s\<lparr>terminals := (terminals s)[i := (terminals s ! i)\<lparr>idle := False\<rparr>],
                  effects := effects s @ [Show (terminal (terminals s ! i)),
                                          SendText (terminal (terminals s ! i)) cmd]\<rparr>, Sent)
          else (s\<lparr>console := console s @ [Log_already_running]\<rparr>, AlreadyRunning))"
  using findIndex_Some [OF assms(1)] ensure_terminal_found [OF assms]
  by (simp add: runCommandInTerminal_def send_if_idle_def Let_def)

lemma run_absent:
  assumes "findIndex (\<lambda>e. tname (terminal e) = name) (terminals s) = None"
  shows "runCommandInTerminal cmd name s =
         (s\<lparr>window_terminals := window_terminals s @ [\<lparr>tid = created s, tname = name\<rparr>],
            created := Suc (created s),
            integration_listeners := integration_listeners s @ [\<lparr>tid = created s, tname = name\<rparr>],
            close_listeners := Suc (close_listeners s),
            terminals := terminals s @ [\<lparr>terminal = \<lparr>tid = created s, tname = name\<rparr>, idle = False\<rparr>],
            effects := effects s @ [Show \<lparr>tid = created s, tname = name\<rparr>,
                                    SendText \<lparr>tid = created s, tname = name\<rparr> cmd]\<rparr>, Sent)"
  using ensure_terminal_absent [OF assms]
  by (simp add: runCommandInTerminal_def send_if_idle_def Let_def)

lemma run_twice:
  assumes "findIndex (\<lambda>e. tname (terminal e) = name) (terminals s) = None \<or>
           list_ex (\<lambda>t. tname t = name) (window_terminals s)"
  shows "runCommandInTerminal cmd2 name (fst (runCommandInTerminal cmd name s)) =
         ((fst (runCommandInTerminal cmd name s))
            \<lparr>console := console (fst (runCommandInTerminal cmd name s)) @ [Log_already_running]\<rparr>,
          AlreadyRunning)"
proof (cases "findIndex (\<lambda>e. tname (terminal e) = name) (terminals s)")
  case None
  let ?s1 = "fst (runCommandInTerminal cmd name s)"
  let ?new = "\<lparr>terminal = \<lparr>tid = created s, tname = name\<rparr>, idle = False\<rparr>"
  from run_absent [OF None, of cmd]
  have t: "terminals ?s1 = terminals s @ [?new]"
    and w: "window_terminals ?s1 = window_terminals s @ [\<lparr>tid = created s, tname = name\<rparr>]"
    by simp_all
  have f: "findIndex (\<lambda>e. tname (terminal e) = name) (terminals ?s1) = Some (length (terminals s))"
    unfolding t using None by (simp add: findIndex_snoc)
  have l: "list_ex (\<lambda>t. tname t = name) (window_terminals ?s1)"
    unfolding w by simp
  from run_found [OF f l, of cmd2] t show ?thesis by simp
next
  case (Some i)
  with assms have l: "list_ex (\<lambda>t. tname t = name) (window_terminals s)" by simp
  note i = findIndex_Some [OF Some]
  let ?s1 = "fst (runCommandInTerminal cmd name s)"
  show ?thesis
  proof (cases "idle (terminals s ! i)")
    case True
    with run_found [OF Some l, of cmd]
    have t: "terminals ?s1 = (terminals s)[i := (terminals s ! i)\<lparr>idle := False\<rparr>]"
      and w: "window_terminals ?s1 = window_terminals s"
      by simp_all
    have f: "findIndex (\<lambda>e. tname (terminal e) = name) (terminals ?s1) = Some i"
      unfolding t using Some i by (simp add: findIndex_update)
    have l1: "list_ex (\<lambda>t. tname t = name) (window_terminals ?s1)" unfolding w by (rule l)
    from run_found [OF f l1, of cmd2] t i show ?thesis by simp
  next
    case False
    with run_found [OF Some l, of cmd]
    have s1: "?s1 = s\<lparr>console := console s @ [Log_already_running]\<rparr>" by simp
    have f: "findIndex (\<lambda>e. tname (terminal e) = name) (terminals ?s1) = Some i"
      unfolding s1 using Some by simp
    have l1: "list_ex (\<lambda>t. tname t = name) (window_terminals ?s1)" unfolding s1 using l by simp
    from run_found [OF f l1, of cmd2] False s1 show ?thesis by simp
  qed
qed

lemma runCommandAction_eq:
  "runCommandAction cmd tn s =
   runCommandInTerminal cmd
     (if tn = [] \<or> tn = js ''undefined'' then TERMINAL_NAME else tn)
     (s\<lparr>console := console s @ [Log_running cmd tn]\<rparr>)"
  by (simp add: runCommandAction_def runCommandInTerminal_def Let_def)

lemma pool_inv_listed:
  assumes "pool_inv s" and "findIndex (\<lambda>e. tname (terminal e) = name) (terminals s) = Some i"
  shows "list_ex (\<lambda>t. tname t = name) (window_terminals s)"
proof -
  from findIndex_Some [OF assms(2)]
  have i: "i < length (terminals s)" "tname (terminal (terminals s ! i)) = name" by simp_all
  then have "terminals s ! i \<in> set (terminals s)" by simp
  with assms(1) have "terminal (terminals s ! i) \<in> set (window_terminals s)"
    by (simp add: pool_inv_def)
  with i(2) show ?thesis unfolding list_ex_iff by blast
qed

text \<open>
  Claim C1. In every pool reached from the empty one by sends and signals, and for every
  name: if the name is found in the pool and its entry is idle, \<open>runCommandInTerminal\<close>
  marks the entry busy, shows the terminal and sends it the command text as it is, and
  nothing else changes; if the entry is busy, the pool, the editor's terminals and the
  calls made on them stay as they are (the only trace is the console line). A second send
  to the same name straight after a first one is rejected and leaves the state of the
  first one (but for the console line), whether or not the name was in the pool before.
  \<open>runCommandAction\<close> of the later version is the same function after the log line and
  the default name.
\<close>

theorem send_accept_reject:
  assumes "pool_inv s"
  shows "(findIndex (\<lambda>e. tname (terminal e) = name) (terminals s) = Some i \<longrightarrow>
            (idle (terminals s ! i) \<longrightarrow>
               runCommandInTerminal cmd name s =
                 (s\<lparr>terminals := (terminals s)[i := (terminals s ! i)\<lparr>idle := False\<rparr>],
                    effects := effects s @ [Show (terminal (terminals s ! i)),
                                            SendText (terminal (terminals s ! i)) cmd]\<rparr>, Sent)) \<and>
            (\<not> idle (terminals s ! i) \<longrightarrow>
               runCommandInTerminal cmd name s =
                 (s\<lparr>console := console s @ [Log_already_running]\<rparr>, AlreadyRunning))) \<and>
         runCommandInTerminal cmd2 name (fst (runCommandInTerminal cmd name s)) =
           ((fst (runCommandInTerminal cmd name s))
              \<lparr>console := console (fst (runCommandInTerminal cmd name s)) @ [Log_already_running]\<rparr>,
            AlreadyRunning) \<and>
         runCommandAction cmd tn s =
           runCommandInTerminal cmd
             (if tn = [] \<or> tn = js ''undefined'' then TERMINAL_NAME else tn)
             (s\<lparr>console := console s @ [Log_running cmd tn]\<rparr>)"
proof (intro conjI impI)
  assume f: "findIndex (\<lambda>e. tname (terminal e) = name) (terminals s) = Some i"
  from pool_inv_listed [OF assms f]
  have l: "list_ex (\<lambda>t. tname t = name) (window_terminals s)" .
  {
    assume "idle (terminals s ! i)"
    with run_found [OF f l, of cmd]
    show "runCommandInTerminal cmd name s =
           (s\<lparr>terminals := (terminals s)[i := (terminals s ! i)\<lparr>idle := False\<rparr>],
              effects := effects s @ [Show (terminal (terminals s ! i)),
                                      SendText (terminal (terminals s ! i)) cmd]\<rparr>, Sent)"
      by simp
  }
  {
    assume "\<not> idle (terminals s ! i)"
    with run_found [OF f l, of cmd]
    show "runCommandInTerminal cmd name s =
           (s\<lparr>console := console s @ [Log_already_running]\<rparr>, AlreadyRunning)"
      by simp
  }
next
  have "findIndex (\<lambda>e. tname (terminal e) = name) (terminals s) = None \<or>
    list_ex (\<lambda>t. tname t = name) (window_terminals s)"
  proof (cases "findIndex (\<lambda>e. tname (terminal e) = name) (terminals s)")
    case None
    then show ?thesis by simp
  next
    case (Some j)
    from pool_inv_listed [OF assms Some] show ?thesis by simp
  qed
  then show "runCommandInTerminal cmd2 name (fst (runCommandInTerminal cmd name s)) =
        ((fst (runCommandInTerminal cmd name s))
           \<lparr>console := console (fst (runCommandInTerminal cmd name s)) @ [Log_already_running]\<rparr>,
         AlreadyRunning)"
    by (rule run_twice)
next
  show "runCommandAction cmd tn s =
     runCommandInTerminal cmd
       (if tn = [] \<or> tn = js ''undefined'' then TERMINAL_NAME else tn)
       (s\<lparr>console := console s @ [Log_running cmd tn]\<rparr>)"
    by (rule runCommandAction_eq)
qed

theorem send_accept_reject_witness:
  "pool_inv (ext_one True) \<and> pool_inv (ext_one False) \<and> pool_inv ext_init \<and>
   findIndex (\<lambda>e. tname (terminal e) = js ''t'') (terminals (ext_one True)) = Some 0 \<and>
   idle (terminals (ext_one True) ! 0) \<and>
   runCommandInTerminal (js ''ls'') (js ''t'') (ext_one True) =
     ((ext_one False)
        \<lparr>effects := [Show \<lparr>tid = 0, tname = js ''t''\<rparr>,
                     SendText \<lparr>tid = 0, tname = js ''t''\<rparr> (js ''ls'')]\<rparr>, Sent) \<and>
   findIndex (\<lambda>e. tname (terminal e) = js ''t'') (terminals (ext_one False)) = Some 0 \<and>
   \<not> idle (terminals (ext_one False) ! 0) \<and>
   runCommandInTerminal (js ''ls'') (js ''t'') (ext_one False) =
     ((ext_one False)\<lparr>console := [Log_already_running]\<rparr>, AlreadyRunning) \<and>
   snd (runCommandInTerminal (js ''pwd'') (js ''t'')
          (fst (runCommandInTerminal (js ''ls'') (js ''t'') ext_init))) = AlreadyRunning"
proof -
  have 0: "pool_inv (ext_one b)" for b by (simp add: pool_inv_def ext_one_def)
  have 00: "pool_inv ext_init" by (simp add: pool_inv_def ext_init_def)
  have 1: "findIndex (\<lambda>e. tname (terminal e) = js ''t'') (terminals (ext_one b)) = Some 0" for b
    by (simp add: ext_one_def)
  have 3: "idle (terminals (ext_one True) ! 0)" "\<not> idle (terminals (ext_one False) ! 0)"
    by (simp_all add: ext_one_def)
  note a = send_accept_reject [OF 0, of "js ''t''" True 0 "js ''ls''" "[]" "[]"]
  note b = send_accept_reject [OF 0, of "js ''t''" False 0 "js ''ls''" "[]" "[]"]
  note c = send_accept_reject [OF 00, of "js ''t''" 0 "js ''ls''" "js ''pwd''" "[]"]
  from a 1 3 have r1: "runCommandInTerminal (js ''ls'') (js ''t'') (ext_one True) =
     ((ext_one False)
        \<lparr>effects := [Show \<lparr>tid = 0, tname = js ''t''\<rparr>,
                     SendText \<lparr>tid = 0, tname = js ''t''\<rparr> (js ''ls'')]\<rparr>, Sent)"
    by (simp add: ext_one_def)
  from b 1 3 have r2: "runCommandInTerminal (js ''ls'') (js ''t'') (ext_one False) =
     ((ext_one False)\<lparr>console := [Log_already_running]\<rparr>, AlreadyRunning)"
    by (simp add: ext_one_def)
  from c have r3: "snd (runCommandInTerminal (js ''pwd'') (js ''t'')
          (fst (runCommandInTerminal (js ''ls'') (js ''t'') ext_init))) = AlreadyRunning"
    by simp
  from 0 00 1 3 r1 r2 r3 show ?thesis by blast
qed

lemma on_end_execution_absent:
  assumes "\<forall>x \<in> set (terminals s). tid (terminal x) \<noteq> tid t"
  shows "on_end_execution L t code s =
         (if tid t = tid L then s\<lparr>console := console s @ [Log_exited code]\<rparr> else s)"
proof -
  from assms have "findIndex (\<lambda>e. tid (terminal e) = tid t) (terminals s) = None"
    by (simp add: findIndex_None)
  then show ?thesis by (auto simp: on_end_execution_def Let_def)
qed

lemma fold_end_execution_absent:
  "\<forall>x \<in> set (terminals s). tid (terminal x) \<noteq> tid t \<Longrightarrow>
   \<exists>c. fold (\<lambda>L. on_end_execution L t code) Ls s = s\<lparr>console := c\<rparr>"
proof (induction Ls arbitrary: s)
  case Nil
  have "s = s\<lparr>console := console s\<rparr>" by simp
  then show ?case by (metis fold_simps(1))
next
  case (Cons L Ls)
  let ?s1 = "on_end_execution L t code s"
  from on_end_execution_absent [OF Cons.prems, of L code]
  obtain c1 where c1: "?s1 = s\<lparr>console := c1\<rparr>"
    by (cases "tid t = tid L") (auto intro: that [of "console s"])
  with Cons.prems have "\<forall>x \<in> set (terminals ?s1). tid (terminal x) \<noteq> tid t" by simp
  from Cons.IH [OF this] obtain c where "fold (\<lambda>L. on_end_execution L t code) Ls ?s1 = ?s1\<lparr>console := c\<rparr>"
    by blast
  with c1 have "fold (\<lambda>L. on_end_execution L t code) (L # Ls) s = s\<lparr>console := c\<rparr>" by simp
  then show ?case by blast
qed

lemma signal_command_ended_absent:
  assumes "\<forall>x \<in> set (terminals s). tid (terminal x) \<noteq> tid t"
  shows "\<exists>c. signal_command_ended t code s = s\<lparr>console := c\<rparr>"
proof -
  from fold_end_execution_absent [OF assms, of code "execution_listeners s"]
  show ?thesis by (simp add: signal_command_ended_def)
qed

text \<open>The invariant holds of the empty pool and is kept by sends and signals.\<close>

lemma map_update_same: "f y = f (xs ! i) \<Longrightarrow> map f (xs[i := y]) = map f xs"
proof (induction xs arbitrary: i)
  case Nil
  then show ?case by simp
next
  case (Cons x xs)
  then show ?case by (cases i) auto
qed

lemma pool_inv_cong:
  assumes "pool_inv s"
    and "map terminal (terminals s') = map terminal (terminals s)"
    and "created s' = created s" and "close_listeners s' = close_listeners s"
    and "window_terminals s' = window_terminals s"
  shows "pool_inv s'"
proof -
  have n: "map (\<lambda>e. tname (terminal e)) xs = map tname (map terminal xs)" for xs :: "entry list"
    by simp
  have i: "map (\<lambda>e. tid (terminal e)) xs = map tid (map terminal xs)" for xs :: "entry list"
    by simp
  have b: "(\<forall>e \<in> set xs. tid (terminal e) < k) \<longleftrightarrow> (\<forall>t \<in> set (map terminal xs). tid t < k)"
    for xs :: "entry list" and k
    by simp
  have w: "(\<forall>e \<in> set xs. terminal e \<in> W) \<longleftrightarrow> (\<forall>t \<in> set (map terminal xs). t \<in> W)"
    for xs :: "entry list" and W
    by simp
  from assms show ?thesis unfolding pool_inv_def n i b w by simp
qed

lemma pool_inv_init: "pool_inv ext_init"
  by (simp add: pool_inv_def ext_init_def)

lemma distinct_map_splice1: "distinct (map f xs) \<Longrightarrow> distinct (map f (splice1 i xs))"
proof -
  assume d: "distinct (map f xs)"
  have "map f (splice1 i xs) = take i (map f xs) @ drop (Suc i) (map f xs)"
    by (simp add: splice1_def take_map drop_map)
  moreover have "set (take i (map f xs)) \<inter> set (drop (Suc i) (map f xs)) = {}"
    using d by (simp add: set_take_disj_set_drop_if_distinct)
  ultimately show ?thesis using d by simp
qed

lemma set_splice1: "set (splice1 i xs) \<subseteq> set xs"
  unfolding splice1_def using set_take_subset [of i xs] set_drop_subset [of "Suc i" xs] by auto

lemma pool_inv_splice:
  assumes "pool_inv s"
  shows "pool_inv (s\<lparr>terminals := splice1 i (terminals s)\<rparr>)"
  using assms set_splice1 [of i "terminals s"]
  by (auto simp: pool_inv_def distinct_map_splice1)

lemma pool_inv_ensure:
  assumes "pool_inv s"
  shows "pool_inv (snd (ensure_terminal name s))"
proof (cases "findIndex (\<lambda>e. tname (terminal e) = name) (terminals s)")
  case None
  then have "\<forall>x \<in> set (terminals s). tname (terminal x) \<noteq> name" by (simp add: findIndex_None)
  with assms ensure_terminal_absent [OF None] show ?thesis
    by (force simp: pool_inv_def)
next
  case (Some i)
  show ?thesis
  proof (cases "list_ex (\<lambda>t. tname t = name) (window_terminals s)")
    case True
    with ensure_terminal_found [OF Some True] assms show ?thesis by simp
  next
    case False
    with Some have "snd (ensure_terminal name s) = s\<lparr>terminals := splice1 i (terminals s)\<rparr>"
      by (simp add: ensure_terminal_def)
    with pool_inv_splice [OF assms] show ?thesis by simp
  qed
qed

lemma pool_inv_send:
  assumes "pool_inv s"
  shows "pool_inv (fst (send_if_idle cmd i s))"
proof (rule pool_inv_cong [OF assms])
  show "map terminal (terminals (fst (send_if_idle cmd i s))) = map terminal (terminals s)"
    by (simp add: send_if_idle_def Let_def map_update_same)
qed (simp_all add: send_if_idle_def Let_def)

lemma pool_inv_runCommandInTerminal:
  assumes "pool_inv s"
  shows "pool_inv (fst (runCommandInTerminal cmd name s))"
proof -
  obtain i s1 where e: "ensure_terminal name s = (i, s1)" by (cases "ensure_terminal name s")
  with pool_inv_ensure [OF assms, of name] have "pool_inv s1" by simp
  from pool_inv_send [OF this, of cmd i] e show ?thesis
    by (simp add: runCommandInTerminal_def)
qed

lemma pool_inv_session_closed:
  assumes "pool_inv s"
  shows "pool_inv (signal_session_closed t s)"
proof (cases "close_listeners s")
  case 0
  with assms show ?thesis by (auto simp: signal_session_closed_def pool_inv_def)
next
  case (Suc n)
  from assms have dt: "distinct (map (\<lambda>e. tid (terminal e)) (terminals s))"
    by (simp add: pool_inv_def)
  from Suc have "0 < close_listeners s" by simp
  from signal_session_closed_eq [OF dt this, of t] assms show ?thesis
    by (auto simp: pool_inv_def distinct_map_filter)
qed

lemma on_end_execution_keeps:
  "map terminal (terminals (on_end_execution L t code s)) = map terminal (terminals s) \<and>
   created (on_end_execution L t code s) = created s \<and>
   close_listeners (on_end_execution L t code s) = close_listeners s \<and>
   window_terminals (on_end_execution L t code s) = window_terminals s"
  by (auto simp: on_end_execution_def Let_def map_update_same split: option.splits)

lemma pool_inv_command_ended:
  assumes "pool_inv s"
  shows "pool_inv (signal_command_ended t code s)"
proof -
  have "pool_inv (fold (\<lambda>L. on_end_execution L t code) Ls s0)" if "pool_inv s0" for Ls s0
    using that
  proof (induction Ls arbitrary: s0)
    case Nil
    then show ?case by simp
  next
    case (Cons L Ls)
    from on_end_execution_keeps [of L t code s0]
    have "pool_inv (on_end_execution L t code s0)"
      by (intro pool_inv_cong [OF Cons.prems]) simp_all
    from Cons.IH [OF this] show ?case by simp
  qed
  from this [OF assms] show ?thesis by (simp add: signal_command_ended_def)
qed

lemma pool_inv_shell_integration:
  assumes "pool_inv s"
  shows "pool_inv (signal_shell_integration t s)"
proof -
  have "pool_inv (fold (\<lambda>L. on_shell_integration L t) Ls s0)" if "pool_inv s0" for Ls s0
    using that
  proof (induction Ls arbitrary: s0)
    case Nil
    then show ?case by simp
  next
    case (Cons L Ls)
    have "pool_inv (on_shell_integration L t s0)"
      by (intro pool_inv_cong [OF Cons.prems]) (simp_all add: on_shell_integration_def)
    from Cons.IH [OF this] show ?case by simp
  qed
  from this [OF assms] show ?thesis by (simp add: signal_shell_integration_def)
qed

lemma pool_inv_runCommandAction:
  assumes "pool_inv s"
  shows "pool_inv (fst (runCommandAction cmd tn s))"
proof -
  have "pool_inv (s\<lparr>console := console s @ [Log_running cmd tn]\<rparr>)"
    by (rule pool_inv_cong [OF assms]) simp_all
  from pool_inv_runCommandInTerminal [OF this] show ?thesis
    by (simp add: runCommandAction_eq)
qed

lemma pool_inv_openFile:
  assumes "pool_inv s"
  shows "pool_inv (openFile file s)"
  by (rule pool_inv_cong [OF assms]) (simp_all add: openFile_def)

lemma pool_inv_runAction_ext:
  assumes "pool_inv s"
  shows "pool_inv (fst (runAction_ext a tgt term s))"
proof -
  have b: "pool_inv (runBrowserAction tgt s)"
    by (rule pool_inv_cong [OF assms]) (simp_all add: runBrowserAction_def)
  have t: "pool_inv (fst (runTestAction f c s))" for f c
    unfolding runTestAction_def
    by (rule pool_inv_runCommandAction [OF pool_inv_openFile [OF assms]])
  from assms b t pool_inv_runCommandAction [OF assms] pool_inv_openFile [OF assms]
  show ?thesis
    by (auto simp: runAction_ext_def split: list.splits)
qed

text \<open>So every reachable pool satisfies the invariant.\<close>

lemma reachable_pool_inv: "reachable s \<Longrightarrow> pool_inv s"
proof (induction rule: reachable.induct)
  case start
  show ?case by (rule pool_inv_init)
next
  case (send s command terminalName)
  then show ?case by (simp add: pool_inv_runCommandInTerminal)
next
  case (act s a tgt trm)
  then show ?case by (simp add: pool_inv_runAction_ext)
next
  case (integration s t)
  then show ?case by (simp add: pool_inv_shell_integration)
next
  case (ended s t exitCode)
  then show ?case by (simp add: pool_inv_command_ended)
next
  case (closed s t)
  then show ?case by (simp add: pool_inv_session_closed)
qed

text \<open>
  A terminal that is gone stays gone: every new terminal gets an identity that was never
  used, and nothing puts an old terminal back into the pool.
\<close>

lemma gone_cong:
  assumes "gone t s"
    and "map terminal (terminals s') = map terminal (terminals s)"
    and "created s' = created s"
  shows "gone t s'"
proof -
  have w: "(\<forall>x \<in> set xs. tid (terminal x) \<noteq> k) \<longleftrightarrow> (\<forall>u \<in> set (map terminal xs). tid u \<noteq> k)"
    for xs :: "entry list" and k
    by simp
  from assms show ?thesis unfolding gone_def w by simp
qed

lemma gone_ensure:
  assumes "gone t s"
  shows "gone t (snd (ensure_terminal name s))"
proof (cases "findIndex (\<lambda>e. tname (terminal e) = name) (terminals s)")
  case None
  from assms ensure_terminal_absent [OF None] show ?thesis
    by (auto simp: gone_def)
next
  case (Some i)
  show ?thesis
  proof (cases "list_ex (\<lambda>t. tname t = name) (window_terminals s)")
    case True
    with ensure_terminal_found [OF Some True] assms show ?thesis by simp
  next
    case False
    with Some have "snd (ensure_terminal name s) = s\<lparr>terminals := splice1 i (terminals s)\<rparr>"
      by (simp add: ensure_terminal_def)
    with assms set_splice1 [of i "terminals s"] show ?thesis by (auto simp: gone_def)
  qed
qed

lemma gone_send:
  assumes "gone t s"
  shows "gone t (fst (send_if_idle cmd i s))"
proof (rule gone_cong [OF assms])
  show "map terminal (terminals (fst (send_if_idle cmd i s))) = map terminal (terminals s)"
    by (simp add: send_if_idle_def Let_def map_update_same)
qed (simp add: send_if_idle_def Let_def)

lemma gone_runCommandInTerminal:
  assumes "gone t s"
  shows "gone t (fst (runCommandInTerminal cmd name s))"
proof -
  obtain i s1 where e: "ensure_terminal name s = (i, s1)" by (cases "ensure_terminal name s")
  with gone_ensure [OF assms, of name] have "gone t s1" by simp
  from gone_send [OF this, of cmd i] e show ?thesis
    by (simp add: runCommandInTerminal_def)
qed

lemma gone_runCommandAction:
  assumes "gone t s"
  shows "gone t (fst (runCommandAction cmd tn s))"
proof -
  have "gone t (s\<lparr>console := console s @ [Log_running cmd tn]\<rparr>)"
    by (rule gone_cong [OF assms]) simp_all
  from gone_runCommandInTerminal [OF this] show ?thesis
    by (simp add: runCommandAction_eq)
qed

lemma gone_openFile:
  assumes "gone t s"
  shows "gone t (openFile file s)"
  by (rule gone_cong [OF assms]) (simp_all add: openFile_def)

lemma gone_runAction_ext:
  assumes "gone t s"
  shows "gone t (fst (runAction_ext a tgt trm s))"
proof -
  have b: "gone t (runBrowserAction tgt s)"
    by (rule gone_cong [OF assms]) (simp_all add: runBrowserAction_def)
  have r: "gone t (fst (runTestAction f c s))" for f c
    unfolding runTestAction_def
    by (rule gone_runCommandAction [OF gone_openFile [OF assms]])
  from assms b r gone_runCommandAction [OF assms] gone_openFile [OF assms]
  show ?thesis
    by (auto simp: runAction_ext_def split: list.splits)
qed

lemma on_close_subset:
  "set (terminals (on_close u s)) \<subseteq> set (terminals s) \<and> created (on_close u s) = created s"
proof (cases "findIndex (\<lambda>e. tid (terminal e) = tid u) (terminals s)")
  case None
  then show ?thesis by (simp add: on_close_def)
next
  case (Some i)
  with set_splice1 [of i "terminals s"] show ?thesis by (simp add: on_close_def)
qed

lemma on_close_funpow_subset:
  "set (terminals ((on_close u ^^ n) s)) \<subseteq> set (terminals s) \<and>
   created ((on_close u ^^ n) s) = created s"
proof (induction n)
  case 0
  show ?case by simp
next
  case (Suc n)
  from on_close_subset [where u = u and s = "(on_close u ^^ n) s"] Suc show ?case by auto
qed

lemma gone_session_closed:
  assumes "gone t s"
  shows "gone t (signal_session_closed u s)"
proof -
  let ?s0 = "s\<lparr>window_terminals := filter (\<lambda>w. tid w \<noteq> tid u) (window_terminals s)\<rparr>"
  from on_close_funpow_subset [where u = u and n = "close_listeners s" and s = ?s0] assms
  show ?thesis by (auto simp: signal_session_closed_def gone_def)
qed

lemma gone_command_ended:
  assumes "gone t s"
  shows "gone t (signal_command_ended u code s)"
proof -
  have "gone t (fold (\<lambda>L. on_end_execution L u code) Ls s0)" if "gone t s0" for Ls s0
    using that
  proof (induction Ls arbitrary: s0)
    case Nil
    then show ?case by simp
  next
    case (Cons L Ls)
    from on_end_execution_keeps [of L u code s0]
    have "gone t (on_end_execution L u code s0)"
      by (intro gone_cong [OF Cons.prems]) simp_all
    from Cons.IH [OF this] show ?case by simp
  qed
  from this [OF assms] show ?thesis by (simp add: signal_command_ended_def)
qed

lemma gone_shell_integration:
  assumes "gone t s"
  shows "gone t (signal_shell_integration u s)"
proof -
  have "gone t (fold (\<lambda>L. on_shell_integration L u) Ls s0)" if "gone t s0" for Ls s0
    using that
  proof (induction Ls arbitrary: s0)
    case Nil
    then show ?case by simp
  next
    case (Cons L Ls)
    have "gone t (on_shell_integration L u s0)"
      by (intro gone_cong [OF Cons.prems]) (simp_all add: on_shell_integration_def)
    from Cons.IH [OF this] show ?case by simp
  qed
  from this [OF assms] show ?thesis by (simp add: signal_shell_integration_def)
qed

lemma reaches_gone: "reaches s s2 \<Longrightarrow> gone t s \<Longrightarrow> gone t s2"
proof (induction rule: reaches.induct)
  case (here s)
  then show ?case by simp
next
  case (send s s1 command terminalName)
  then show ?case by (simp add: gone_runCommandInTerminal)
next
  case (act s s1 a tgt trm)
  then show ?case by (simp add: gone_runAction_ext)
next
  case (integration s s1 u)
  then show ?case by (simp add: gone_shell_integration)
next
  case (ended s s1 u exitCode)
  then show ?case by (simp add: gone_command_ended)
next
  case (closed s s1 u)
  then show ?case by (simp add: gone_session_closed)
qed

text \<open>
  Claim C2. In a pool reached from the empty one, the close signal for the terminal of an
  entry removes that entry whatever its \<open>idle\<close> flag is, and no entry of that name is
  left. A send to that name afterwards registers a new entry, idle, at the end of the
  pool, whose terminal is one no entry of the pool had before, and then marks it busy and
  sends the command to that new terminal. A command-ended signal for the removed terminal
  changes nothing but the console, in the state right after the close and in every state
  reached from it by further sends, dispatches and signals; in particular it leaves the
  session made anew under the same name busy.
\<close>

theorem session_closed_then_fresh:
  assumes "pool_inv s" and "e \<in> set (terminals s)"
  defines "s' \<equiv> signal_session_closed (terminal e) s"
    and "new \<equiv> \<lparr>tid = created s, tname = tname (terminal e)\<rparr>"
  shows "terminals s' = filter (\<lambda>x. tid (terminal x) \<noteq> tid (terminal e)) (terminals s) \<and>
         e \<notin> set (terminals s') \<and>
         (\<forall>x \<in> set (terminals s'). tname (terminal x) \<noteq> tname (terminal e)) \<and>
         tid new \<noteq> tid (terminal e) \<and>
         (\<forall>x \<in> set (terminals s). tid (terminal x) \<noteq> tid new) \<and>
         fst (ensure_terminal (tname (terminal e)) s') = length (terminals s') \<and>
         terminals (snd (ensure_terminal (tname (terminal e)) s')) =
           terminals s' @ [\<lparr>terminal = new, idle = True\<rparr>] \<and>
         runCommandInTerminal cmd (tname (terminal e)) s' =
           ((snd (ensure_terminal (tname (terminal e)) s'))
              \<lparr>terminals := terminals s' @ [\<lparr>terminal = new, idle = False\<rparr>],
               effects := effects s @ [Show new, SendText new cmd]\<rparr>, Sent) \<and>
         (\<exists>c. signal_command_ended (terminal e) code s' = s'\<lparr>console := c\<rparr>) \<and>
         (\<forall>s2. reaches s' s2 \<longrightarrow>
            (\<exists>c. signal_command_ended (terminal e) code s2 = s2\<lparr>console := c\<rparr>)) \<and>
         (\<exists>c. signal_command_ended (terminal e) code
                (fst (runCommandInTerminal cmd (tname (terminal e)) s')) =
              (fst (runCommandInTerminal cmd (tname (terminal e)) s'))\<lparr>console := c\<rparr>)"
proof -
  from assms(1) have dn: "distinct (map (\<lambda>e. tname (terminal e)) (terminals s))"
    and dt: "distinct (map (\<lambda>e. tid (terminal e)) (terminals s))"
    and lt: "\<forall>x \<in> set (terminals s). tid (terminal x) < created s"
    and cl: "close_listeners s = created s"
    by (simp_all add: pool_inv_def)
  from lt assms(2) have pos: "0 < close_listeners s" using cl by force
  have s': "s' = s\<lparr>window_terminals :=
                    filter (\<lambda>w. tid w \<noteq> tid (terminal e)) (window_terminals s),
                  terminals := filter (\<lambda>x. tid (terminal x) \<noteq> tid (terminal e)) (terminals s)\<rparr>"
    unfolding s'_def by (rule signal_session_closed_eq [OF dt pos])
  then have 1: "terminals s' = filter (\<lambda>x. tid (terminal x) \<noteq> tid (terminal e)) (terminals s)"
    by simp
  have 2: "e \<notin> set (terminals s')" unfolding 1 by simp
  have 3: "\<forall>x \<in> set (terminals s'). tname (terminal x) \<noteq> tname (terminal e)"
  proof
    fix x assume "x \<in> set (terminals s')"
    then have x: "x \<in> set (terminals s)" "tid (terminal x) \<noteq> tid (terminal e)"
      unfolding 1 by simp_all
    then have "x \<noteq> e" by auto
    with dn x(1) assms(2) show "tname (terminal x) \<noteq> tname (terminal e)"
      by (metis (mono_tags, lifting) distinct_map inj_onD)
  qed
  from lt assms(2) have 4: "tid new \<noteq> tid (terminal e)" by (auto simp: new_def)
  from lt have 5: "\<forall>x \<in> set (terminals s). tid (terminal x) \<noteq> tid new"
    by (auto simp: new_def)
  from 3 have none: "findIndex (\<lambda>x. tname (terminal x) = tname (terminal e)) (terminals s') = None"
    by (simp add: findIndex_None)
  have cr: "created s' = created s" "effects s' = effects s" by (simp_all add: s')
  note en = ensure_terminal_absent [OF none]
  from en cr have 6: "fst (ensure_terminal (tname (terminal e)) s') = length (terminals s')"
    and 7: "terminals (snd (ensure_terminal (tname (terminal e)) s')) =
           terminals s' @ [\<lparr>terminal = new, idle = True\<rparr>]"
    by (simp_all add: new_def)
  from run_absent [OF none, of cmd] en cr
  have 8: "runCommandInTerminal cmd (tname (terminal e)) s' =
           ((snd (ensure_terminal (tname (terminal e)) s'))
              \<lparr>terminals := terminals s' @ [\<lparr>terminal = new, idle = False\<rparr>],
               effects := effects s @ [Show new, SendText new cmd]\<rparr>, Sent)"
    by (simp add: new_def)
  have "\<forall>x \<in> set (terminals s'). tid (terminal x) \<noteq> tid (terminal e)" unfolding 1 by simp
  from signal_command_ended_absent [OF this]
  have 9: "\<exists>c. signal_command_ended (terminal e) code s' = s'\<lparr>console := c\<rparr>" .
  from lt assms(2) have g: "gone (terminal e) s'" by (simp add: gone_def 1 cr)
  have 10: "\<forall>s2. reaches s' s2 \<longrightarrow>
            (\<exists>c. signal_command_ended (terminal e) code s2 = s2\<lparr>console := c\<rparr>)"
  proof (intro allI impI)
    fix s2 assume "reaches s' s2"
    from reaches_gone [OF this g]
    have "\<forall>x \<in> set (terminals s2). tid (terminal x) \<noteq> tid (terminal e)"
      by (simp add: gone_def)
    from signal_command_ended_absent [OF this]
    show "\<exists>c. signal_command_ended (terminal e) code s2 = s2\<lparr>console := c\<rparr>" .
  qed
  have "reaches s' (fst (runCommandInTerminal cmd (tname (terminal e)) s'))"
    by (rule reaches.send [OF reaches.here])
  with 10 have 11: "\<exists>c. signal_command_ended (terminal e) code
                (fst (runCommandInTerminal cmd (tname (terminal e)) s')) =
              (fst (runCommandInTerminal cmd (tname (terminal e)) s'))\<lparr>console := c\<rparr>"
    by blast
  from 1 2 3 4 5 6 7 8 9 10 11 show ?thesis by blast
qed

theorem session_closed_then_fresh_witness:
  "pool_inv (ext_one False) \<and>
   \<lparr>terminal = \<lparr>tid = 0, tname = js ''t''\<rparr>, idle = False\<rparr> \<in> set (terminals (ext_one False)) \<and>
   terminals (signal_session_closed \<lparr>tid = 0, tname = js ''t''\<rparr> (ext_one False)) = [] \<and>
   runCommandInTerminal (js ''ls'') (js ''t'')
       (signal_session_closed \<lparr>tid = 0, tname = js ''t''\<rparr> (ext_one False)) =
     (\<lparr>terminals = [\<lparr>terminal = \<lparr>tid = 1, tname = js ''t''\<rparr>, idle = False\<rparr>],
       window_terminals = [\<lparr>tid = 1, tname = js ''t''\<rparr>],
       created = 2,
       integration_listeners = [\<lparr>tid = 0, tname = js ''t''\<rparr>, \<lparr>tid = 1, tname = js ''t''\<rparr>],
       execution_listeners = [\<lparr>tid = 0, tname = js ''t''\<rparr>],
       close_listeners = 2,
       effects = [Show \<lparr>tid = 1, tname = js ''t''\<rparr>,
                  SendText \<lparr>tid = 1, tname = js ''t''\<rparr> (js ''ls'')],
       console = []\<rparr>, Sent) \<and>
   terminals (signal_command_ended \<lparr>tid = 0, tname = js ''t''\<rparr> 0
       (fst (runCommandInTerminal (js ''ls'') (js ''t'')
          (signal_session_closed \<lparr>tid = 0, tname = js ''t''\<rparr> (ext_one False))))) =
     [\<lparr>terminal = \<lparr>tid = 1, tname = js ''t''\<rparr>, idle = False\<rparr>] \<and>
   console (signal_command_ended \<lparr>tid = 0, tname = js ''t''\<rparr> 0
       (fst (runCommandInTerminal (js ''ls'') (js ''t'')
          (signal_session_closed \<lparr>tid = 0, tname = js ''t''\<rparr> (ext_one False))))) =
     [Log_exited 0]"
proof -
  let ?e = "\<lparr>terminal = \<lparr>tid = 0, tname = js ''t''\<rparr>, idle = False\<rparr>"
  have 1: "pool_inv (ext_one False)" by (simp add: pool_inv_def ext_one_def)
  have 2: "?e \<in> set (terminals (ext_one False))" by (simp add: ext_one_def)
  note w = session_closed_then_fresh [OF 1 2, of "js ''ls''" 0]
  have t: "terminal ?e = \<lparr>tid = 0, tname = js ''t''\<rparr>" by simp
  from w have a: "terminals (signal_session_closed \<lparr>tid = 0, tname = js ''t''\<rparr> (ext_one False)) = []"
    unfolding t by (simp add: ext_one_def)
  have s': "signal_session_closed \<lparr>tid = 0, tname = js ''t''\<rparr> (ext_one False) =
      (ext_one False)\<lparr>terminals := [], window_terminals := []\<rparr>"
    by (simp add: signal_session_closed_def ext_one_def on_close_def splice1_def)
  from w have "runCommandInTerminal (js ''ls'') (js ''t'')
       (signal_session_closed \<lparr>tid = 0, tname = js ''t''\<rparr> (ext_one False)) =
     ((snd (ensure_terminal (js ''t'') (signal_session_closed \<lparr>tid = 0, tname = js ''t''\<rparr> (ext_one False))))
              \<lparr>terminals := terminals (signal_session_closed \<lparr>tid = 0, tname = js ''t''\<rparr> (ext_one False)) @
                   [\<lparr>terminal = \<lparr>tid = created (ext_one False), tname = js ''t''\<rparr>, idle = False\<rparr>],
               effects := effects (ext_one False) @
                   [Show \<lparr>tid = created (ext_one False), tname = js ''t''\<rparr>,
                    SendText \<lparr>tid = created (ext_one False), tname = js ''t''\<rparr> (js ''ls'')]\<rparr>, Sent)"
    unfolding t by simp
  then have b: "runCommandInTerminal (js ''ls'') (js ''t'')
       (signal_session_closed \<lparr>tid = 0, tname = js ''t''\<rparr> (ext_one False)) =
     (\<lparr>terminals = [\<lparr>terminal = \<lparr>tid = 1, tname = js ''t''\<rparr>, idle = False\<rparr>],
       window_terminals = [\<lparr>tid = 1, tname = js ''t''\<rparr>],
       created = 2,
       integration_listeners = [\<lparr>tid = 0, tname = js ''t''\<rparr>, \<lparr>tid = 1, tname = js ''t''\<rparr>],
       execution_listeners = [\<lparr>tid = 0, tname = js ''t''\<rparr>],
       close_listeners = 2,
       effects = [Show \<lparr>tid = 1, tname = js ''t''\<rparr>,
                  SendText \<lparr>tid = 1, tname = js ''t''\<rparr> (js ''ls'')],
       console = []\<rparr>, Sent)"
    unfolding s' by (simp add: ext_one_def ensure_terminal_def createTerminal_def Let_def)
  let ?s2 = "fst (runCommandInTerminal (js ''ls'') (js ''t'')
          (signal_session_closed \<lparr>tid = 0, tname = js ''t''\<rparr> (ext_one False)))"
  from w have "\<exists>c. signal_command_ended (terminal ?e) 0
        (fst (runCommandInTerminal (js ''ls'') (tname (terminal ?e))
           (signal_session_closed (terminal ?e) (ext_one False)))) =
      (fst (runCommandInTerminal (js ''ls'') (tname (terminal ?e))
           (signal_session_closed (terminal ?e) (ext_one False))))\<lparr>console := c\<rparr>"
    by blast
  then have "\<exists>c. signal_command_ended \<lparr>tid = 0, tname = js ''t''\<rparr> 0 ?s2 =
      ?s2\<lparr>console := c\<rparr>"
    by (simp only: entry.select_convs vsc_terminal.select_convs)
  then obtain c where c: "signal_command_ended \<lparr>tid = 0, tname = js ''t''\<rparr> 0 ?s2 =
      ?s2\<lparr>console := c\<rparr>"
    by blast
  then have "terminals (signal_command_ended \<lparr>tid = 0, tname = js ''t''\<rparr> 0 ?s2) = terminals ?s2"
    by simp
  with b have d: "terminals (signal_command_ended \<lparr>tid = 0, tname = js ''t''\<rparr> 0 ?s2) =
     [\<lparr>terminal = \<lparr>tid = 1, tname = js ''t''\<rparr>, idle = False\<rparr>]"
    by simp
  have f: "console (signal_command_ended \<lparr>tid = 0, tname = js ''t''\<rparr> 0 ?s2) = [Log_exited 0]"
    unfolding b by (simp add: signal_command_ended_def on_end_execution_def)
  from 1 2 a b d f show ?thesis by blast
qed

subsection \<open>An entry whose terminal the editor no longer lists\<close>

text \<open>
  The invariant excludes a pool in which a name is found but the editor lists no
  terminal of that name. \<open>runCommandInTerminal\<close> has a branch for it all the same: it
  removes the entry and goes on with the index it had found. With another entry behind
  it, the command goes to that entry's terminal; with none, reading \<open>idle\<close> throws.
\<close>

lemma runCommandInTerminal_stale_entry:
  "runCommandInTerminal (js ''ls'') (js ''a'')
     \<lparr>terminals = [\<lparr>terminal = \<lparr>tid = 0, tname = js ''a''\<rparr>, idle = True\<rparr>,
                   \<lparr>terminal = \<lparr>tid = 1, tname = js ''b''\<rparr>, idle = True\<rparr>],
      window_terminals = [\<lparr>tid = 1, tname = js ''b''\<rparr>],
      created = 2, integration_listeners = [], execution_listeners = [],
      close_listeners = 2, effects = [], console = []\<rparr> =
   (\<lparr>terminals = [\<lparr>terminal = \<lparr>tid = 1, tname = js ''b''\<rparr>, idle = False\<rparr>],
     window_terminals = [\<lparr>tid = 1, tname = js ''b''\<rparr>],
     created = 2, integration_listeners = [], execution_listeners = [],
     close_listeners = 2,
     effects = [Show \<lparr>tid = 1, tname = js ''b''\<rparr>,
                SendText \<lparr>tid = 1, tname = js ''b''\<rparr> (js ''ls'')],
     console = []\<rparr>, Sent)"
  "snd (runCommandInTerminal (js ''ls'') (js ''a'')
     \<lparr>terminals = [\<lparr>terminal = \<lparr>tid = 0, tname = js ''a''\<rparr>, idle = True\<rparr>],
      window_terminals = [],
      created = 1, integration_listeners = [], execution_listeners = [],
      close_listeners = 1, effects = [], console = []\<rparr>) = TypeError"
  by (simp_all add: runCommandInTerminal_def ensure_terminal_def send_if_idle_def splice1_def
      Let_def)

end
